theory Spec2Isabelle
  imports Complex_Main
begin

section \<open>Numbers and typed arrays\<close>

text \<open>
  The pitch detector works on JavaScript numbers. They are modelled as exact real numbers,
  extended by the three non-finite values a division can produce. Rounding (to binary64, and
  to binary32 when a value is stored into a \<open>Float32Array\<close>) and overflow are left out here
  (the normalized curve is taken up again with the rounding of its stores further down), and
  there is one zero: the code never forms a negative zero from finite samples in exact
  arithmetic, so a division of a positive number by zero is \<open>+Infinity\<close>.

  Audio samples and the entries of the CMNDF curve are finite, so the arrays hold reals;
  arithmetic that may leave the finite numbers (the division in \<open>refineTau\<close>, the frequency,
  the averaged history) is done on \<open>jsnum\<close>.
\<close>

datatype jsnum = Fin real | PInf | NInf | NaN

fun jadd :: "jsnum \<Rightarrow> jsnum \<Rightarrow> jsnum" where
  "jadd (Fin a) (Fin b) = Fin (a + b)"
| "jadd NaN _ = NaN"
| "jadd _ NaN = NaN"
| "jadd PInf NInf = NaN"
| "jadd NInf PInf = NaN"
| "jadd PInf _ = PInf"
| "jadd _ PInf = PInf"
| "jadd NInf _ = NInf"
| "jadd _ NInf = NInf"

fun jmul :: "jsnum \<Rightarrow> jsnum \<Rightarrow> jsnum" where
  "jmul (Fin a) (Fin b) = Fin (a * b)"
| "jmul NaN _ = NaN"
| "jmul _ NaN = NaN"
| "jmul (Fin a) PInf = (if 0 < a then PInf else if a < 0 then NInf else NaN)"
| "jmul (Fin a) NInf = (if 0 < a then NInf else if a < 0 then PInf else NaN)"
| "jmul PInf (Fin b) = (if 0 < b then PInf else if b < 0 then NInf else NaN)"
| "jmul NInf (Fin b) = (if 0 < b then NInf else if b < 0 then PInf else NaN)"
| "jmul PInf PInf = PInf"
| "jmul PInf NInf = NInf"
| "jmul NInf PInf = NInf"
| "jmul NInf NInf = PInf"

fun jdiv :: "jsnum \<Rightarrow> jsnum \<Rightarrow> jsnum" where
  "jdiv (Fin a) (Fin b) =
     (if b = 0 then (if 0 < a then PInf else if a < 0 then NInf else NaN) else Fin (a / b))"
| "jdiv NaN _ = NaN"
| "jdiv _ NaN = NaN"
| "jdiv (Fin a) PInf = Fin 0"
| "jdiv (Fin a) NInf = Fin 0"
| "jdiv PInf (Fin b) = (if b < 0 then NInf else PInf)"
| "jdiv NInf (Fin b) = (if b < 0 then PInf else NInf)"
| "jdiv PInf PInf = NaN"
| "jdiv PInf NInf = NaN"
| "jdiv NInf PInf = NaN"
| "jdiv NInf NInf = NaN"

definition jsub :: "jsnum \<Rightarrow> jsnum \<Rightarrow> jsnum" where
  "jsub a b = jadd a (jmul (Fin (- 1)) b)"

text \<open>The comparison \<open>a < b\<close>: false as soon as one side is \<open>NaN\<close>.\<close>

fun jlt :: "jsnum \<Rightarrow> jsnum \<Rightarrow> bool" where
  "jlt (Fin a) (Fin b) = (a < b)"
| "jlt NaN _ = False"
| "jlt _ NaN = False"
| "jlt PInf _ = False"
| "jlt _ NInf = False"
| "jlt NInf _ = True"
| "jlt _ PInf = True"

text \<open>
  Reading a typed array at an index outside \<open>0..length-1\<close> does not throw: the value is
  \<open>undefined\<close>, here \<open>None\<close>. In a comparison or in arithmetic \<open>undefined\<close> becomes \<open>NaN\<close>.
\<close>

definition rd :: "real list \<Rightarrow> nat \<Rightarrow> real option" where
  "rd arr i = (if i < length arr then Some (arr ! i) else None)"

fun to_num :: "real option \<Rightarrow> jsnum" where
  "to_num None = NaN"
| "to_num (Some r) = Fin r"

text \<open>
  \<open>!cmndf\<close> tests an object reference. Every object is truthy in JavaScript, a typed array
  of length 0 or one full of zeros included.
\<close>

definition truthy :: "real list \<Rightarrow> bool" where
  "truthy arr = True"

section \<open>The YIN detector (yin-algorithm.js)\<close>

definition MIN_FREQUENCY :: real where
  "MIN_FREQUENCY = 27"

definition MAX_FREQUENCY :: real where
  "MAX_FREQUENCY = 5000"

definition THRESHOLD :: real where
  "THRESHOLD = 1 / 10"

record detection =
  frequency :: jsnum
  confidence :: "real option"

subsection \<open>Autocorrelation and difference function\<close>

text \<open>
  \<open>computeACF\<close>: a lag outside \<open>0..length-1\<close> gives 0; otherwise the products are summed
  from index 0 upwards over the first \<open>length - tau\<close> samples. Lags are naturals, so the
  test \<open>tau < 0\<close> of the source never fires.
\<close>

definition computeACF :: "real list \<Rightarrow> nat \<Rightarrow> real" where
  "computeACF audioSamples tau =
     (let maxTau = int (length audioSamples) - 1 in
      if int tau > maxTau then 0
      else fold (\<lambda>x acf. acf + audioSamples ! x * audioSamples ! (x + tau))
             [0..<length audioSamples - tau] 0)"

text \<open>\<open>audioSamples.subarray(tau)\<close> is the view from index \<open>tau\<close> to the end.\<close>

definition computeDF :: "real list \<Rightarrow> nat \<Rightarrow> real" where
  "computeDF audioSamples tau =
     (let r0 = computeACF audioSamples 0;
          rShift = computeACF (drop tau audioSamples) 0;
          rTau = computeACF audioSamples tau
      in r0 + rShift - 2 * rTau)"

subsection \<open>Cumulative mean normalized difference function\<close>

text \<open>
  Both arrays are allocated with \<open>maxTau + 1\<close> zeros. For an empty input \<open>maxTau\<close> is \<open>-1\<close>:
  the arrays are empty and the early return gives the empty curve. The second loop carries
  the running sum \<open>cumulativeDF\<close> and the curve.
\<close>

definition cmndf_step :: "real list \<Rightarrow> nat \<Rightarrow> real \<times> real list \<Rightarrow> real \<times> real list" where
  "cmndf_step df tau st =
     (let cumulativeDF = fst st + df ! tau in
      (cumulativeDF,
       (snd st)[tau := (if cumulativeDF = 0 then 1 else (df ! tau * real tau) / cumulativeDF)]))"

definition computeCMNDF :: "real list \<Rightarrow> nat \<Rightarrow> nat \<Rightarrow> real list" where
  "computeCMNDF audioSamples tauMin tauMax =
     (if audioSamples = [] then []
      else
        let startTau = max 1 tauMin;
            maxTau = min tauMax (length audioSamples - 1);
            df0 = replicate (maxTau + 1) (0::real);
            cmndf0 = replicate (maxTau + 1) (0::real)
        in if startTau > maxTau then cmndf0
           else
             let df = fold (\<lambda>tau df. df[tau := computeDF audioSamples tau]) [1..<maxTau + 1] df0;
                 cmndf1 = cmndf0[0 := 1]
             in snd (fold (cmndf_step df) [1..<maxTau + 1] (0, cmndf1)))"

subsection \<open>Threshold search\<close>

text \<open>The inner \<open>while\<close> loop of \<open>findBestTau\<close>: walk down to the bottom of the valley.\<close>

function valley_descent :: "real list \<Rightarrow> nat \<Rightarrow> nat \<Rightarrow> nat" where
  "valley_descent cmndf tauMax bestTauCandidate =
     (if bestTauCandidate + 1 < tauMax \<and>
         jlt (to_num (rd cmndf (bestTauCandidate + 1))) (to_num (rd cmndf bestTauCandidate))
      then valley_descent cmndf tauMax (bestTauCandidate + 1)
      else bestTauCandidate)"
  by pat_completeness auto
termination
  by (relation "measure (\<lambda>(cmndf, tauMax, b). tauMax - b)") auto

text \<open>The loop of \<open>findGlobalMinIndex\<close>, with its variables \<open>minValue\<close>, \<open>minIndex\<close>, \<open>i\<close>.\<close>

function findGlobalMinIndex_loop ::
  "real list \<Rightarrow> nat \<Rightarrow> real option \<Rightarrow> nat \<Rightarrow> nat \<Rightarrow> nat" where
  "findGlobalMinIndex_loop array endIdx minValue minIndex i =
     (if i < endIdx then
        (if jlt (to_num (rd array i)) (to_num minValue)
         then findGlobalMinIndex_loop array endIdx (rd array i) i (i + 1)
         else findGlobalMinIndex_loop array endIdx minValue minIndex (i + 1))
      else minIndex)"
  by pat_completeness auto
termination
  by (relation "measure (\<lambda>(array, endIdx, minValue, minIndex, i). endIdx - i)") auto

definition findGlobalMinIndex :: "real list \<Rightarrow> nat \<Rightarrow> nat \<Rightarrow> nat" where
  "findGlobalMinIndex array start endIdx =
     findGlobalMinIndex_loop array endIdx (rd array start) start (start + 1)"

text \<open>The outer \<open>for\<close> loop of \<open>findBestTau\<close>, from the current \<open>tau\<close>.\<close>

function findBestTau_loop :: "real list \<Rightarrow> real \<Rightarrow> nat \<Rightarrow> nat \<Rightarrow> nat \<Rightarrow> nat" where
  "findBestTau_loop cmndf threshold tauMin tauMax tau =
     (if tau < tauMax then
        (if jlt (to_num (rd cmndf tau)) (Fin threshold)
         then valley_descent cmndf tauMax tau
         else findBestTau_loop cmndf threshold tauMin tauMax (tau + 1))
      else findGlobalMinIndex cmndf tauMin tauMax)"
  by pat_completeness auto
termination
  by (relation "measure (\<lambda>(cmndf, threshold, tauMin, tauMax, tau). tauMax - tau)") auto

definition findBestTau :: "real list \<Rightarrow> real \<Rightarrow> nat \<Rightarrow> nat \<Rightarrow> nat" where
  "findBestTau cmndf threshold tauMin tauMax =
     findBestTau_loop cmndf threshold tauMin tauMax tauMin"

subsection \<open>Parabolic interpolation\<close>

definition refineTau :: "real list \<Rightarrow> nat \<Rightarrow> jsnum" where
  "refineTau cmndf tau =
     (if tau < 1 \<or> tau + 1 \<ge> length cmndf then Fin (real tau)
      else
        let numerator = jsub (to_num (rd cmndf (tau - 1))) (to_num (rd cmndf (tau + 1)));
            denominator =
              jadd (jsub (to_num (rd cmndf (tau - 1))) (jmul (Fin 2) (to_num (rd cmndf tau))))
                   (to_num (rd cmndf (tau + 1)))
        in jadd (Fin (real tau)) (jmul (Fin (1 / 2)) (jdiv numerator denominator)))"

subsection \<open>detectPitch\<close>

text \<open>
  The sample rate is a positive number; the two lag bounds are the floors of positive
  quotients, hence naturals. \<open>None\<close> is the \<open>null\<close> result.
\<close>

definition lagMin :: "real \<Rightarrow> nat" where
  "lagMin sampleRate = nat \<lfloor>sampleRate / MAX_FREQUENCY\<rfloor>"

definition lagMax :: "real \<Rightarrow> nat" where
  "lagMax sampleRate = nat \<lfloor>sampleRate / MIN_FREQUENCY\<rfloor>"

definition detectPitch :: "real list \<Rightarrow> real \<Rightarrow> detection option" where
  "detectPitch waveform sampleRate =
     (if waveform = [] then None
      else
        let tauMin = lagMin sampleRate;
            tauMax = lagMax sampleRate;
            cmndf = computeCMNDF waveform tauMin tauMax
        in if \<not> truthy cmndf then None
           else
             let tau = findBestTau cmndf THRESHOLD tauMin tauMax;
                 confidence = rd cmndf tau;
                 refinedTau = refineTau cmndf tau;
                 frequency = jdiv (Fin sampleRate) refinedTau
             in if jlt frequency (Fin MIN_FREQUENCY) \<or> jlt (Fin MAX_FREQUENCY) frequency
                then None
                else Some \<lparr>frequency = frequency, confidence = confidence\<rparr>)"


text \<open>
  The intermediate values of one call, named so that statements can refer to them: the
  curve, the lag chosen by the search and the confidence read at it.
\<close>

definition detect_cmndf :: "real list \<Rightarrow> real \<Rightarrow> real list" where
  "detect_cmndf waveform sampleRate =
     computeCMNDF waveform (lagMin sampleRate) (lagMax sampleRate)"

definition detect_tau :: "real list \<Rightarrow> real \<Rightarrow> nat" where
  "detect_tau waveform sampleRate =
     findBestTau (detect_cmndf waveform sampleRate) THRESHOLD (lagMin sampleRate) (lagMax sampleRate)"

definition detect_confidence :: "real list \<Rightarrow> real \<Rightarrow> real option" where
  "detect_confidence waveform sampleRate =
     rd (detect_cmndf waveform sampleRate) (detect_tau waveform sampleRate)"

subsection \<open>The same search and refinement, recording every index read from the curve\<close>

text \<open>
  Each function below follows its counterpart line by line and returns, next to the
  result, the indices at which the curve is read, in the order of the reads. The
  conjunction in the \<open>while\<close> condition is short-circuit: the two reads happen only when
  \<open>bestTauCandidate + 1 < tauMax\<close>.
\<close>

function valley_descent_tr :: "real list \<Rightarrow> nat \<Rightarrow> nat \<Rightarrow> nat \<times> nat list" where
  "valley_descent_tr cmndf tauMax bestTauCandidate =
     (if bestTauCandidate + 1 < tauMax then
        (if jlt (to_num (rd cmndf (bestTauCandidate + 1))) (to_num (rd cmndf bestTauCandidate))
         then apsnd ((@) [bestTauCandidate + 1, bestTauCandidate])
                (valley_descent_tr cmndf tauMax (bestTauCandidate + 1))
         else (bestTauCandidate, [bestTauCandidate + 1, bestTauCandidate]))
      else (bestTauCandidate, []))"
  by pat_completeness auto
termination
  by (relation "measure (\<lambda>(cmndf, tauMax, b). tauMax - b)") auto

function findGlobalMinIndex_loop_tr ::
  "real list \<Rightarrow> nat \<Rightarrow> real option \<Rightarrow> nat \<Rightarrow> nat \<Rightarrow> nat \<times> nat list" where
  "findGlobalMinIndex_loop_tr array endIdx minValue minIndex i =
     (if i < endIdx then
        (if jlt (to_num (rd array i)) (to_num minValue)
         then apsnd ((@) [i, i]) (findGlobalMinIndex_loop_tr array endIdx (rd array i) i (i + 1))
         else apsnd ((@) [i]) (findGlobalMinIndex_loop_tr array endIdx minValue minIndex (i + 1)))
      else (minIndex, []))"
  by pat_completeness auto
termination
  by (relation "measure (\<lambda>(array, endIdx, minValue, minIndex, i). endIdx - i)") auto

definition findGlobalMinIndex_tr :: "real list \<Rightarrow> nat \<Rightarrow> nat \<Rightarrow> nat \<times> nat list" where
  "findGlobalMinIndex_tr array start endIdx =
     apsnd ((@) [start])
       (findGlobalMinIndex_loop_tr array endIdx (rd array start) start (start + 1))"

function findBestTau_loop_tr ::
  "real list \<Rightarrow> real \<Rightarrow> nat \<Rightarrow> nat \<Rightarrow> nat \<Rightarrow> nat \<times> nat list" where
  "findBestTau_loop_tr cmndf threshold tauMin tauMax tau =
     (if tau < tauMax then
        (if jlt (to_num (rd cmndf tau)) (Fin threshold)
         then apsnd ((@) [tau]) (valley_descent_tr cmndf tauMax tau)
         else apsnd ((@) [tau]) (findBestTau_loop_tr cmndf threshold tauMin tauMax (tau + 1)))
      else findGlobalMinIndex_tr cmndf tauMin tauMax)"
  by pat_completeness auto
termination
  by (relation "measure (\<lambda>(cmndf, threshold, tauMin, tauMax, tau). tauMax - tau)") auto

definition findBestTau_tr :: "real list \<Rightarrow> real \<Rightarrow> nat \<Rightarrow> nat \<Rightarrow> nat \<times> nat list" where
  "findBestTau_tr cmndf threshold tauMin tauMax =
     findBestTau_loop_tr cmndf threshold tauMin tauMax tauMin"

definition refineTau_reads :: "real list \<Rightarrow> nat \<Rightarrow> nat list" where
  "refineTau_reads cmndf tau =
     (if tau < 1 \<or> tau + 1 \<ge> length cmndf then []
      else [tau - 1, tau + 1, tau - 1, tau, tau + 1])"

text \<open>The reads of the search in one call of \<open>detectPitch\<close> on a non-empty frame.\<close>

definition detect_search_reads :: "real list \<Rightarrow> real \<Rightarrow> nat list" where
  "detect_search_reads waveform sampleRate =
     snd (findBestTau_tr (detect_cmndf waveform sampleRate) THRESHOLD
            (lagMin sampleRate) (lagMax sampleRate))"

section \<open>The normalized curve with the arithmetic of the machine\<close>

text \<open>
  \<open>computeCMNDF\<close> keeps \<open>df\<close> and \<open>cmndf\<close> in \<open>Float32Array\<close>s: every store rounds the
  number to binary32, and the arithmetic in between is that of binary64. The definitions
  of this section repeat \<open>computeACF\<close>, \<open>computeDF\<close> and \<open>computeCMNDF\<close> line by line with
  the arithmetic as a parameter: the number of a non-negative integer literal or loop
  variable, the four operations, the comparison \<open>===\<close>, and the value read back after a store
  into a \<open>Float32Array\<close>. What is proved for every such arithmetic holds for the one of the
  machine.
\<close>

record 'n arith =
  fl_num :: "nat \<Rightarrow> 'n"
  fl_add :: "'n \<Rightarrow> 'n \<Rightarrow> 'n"
  fl_sub :: "'n \<Rightarrow> 'n \<Rightarrow> 'n"
  fl_mul :: "'n \<Rightarrow> 'n \<Rightarrow> 'n"
  fl_div :: "'n \<Rightarrow> 'n \<Rightarrow> 'n"
  fl_eq :: "'n \<Rightarrow> 'n \<Rightarrow> bool"
  fl_store :: "'n \<Rightarrow> 'n"

definition computeACF_fl :: "'n arith \<Rightarrow> 'n list \<Rightarrow> nat \<Rightarrow> 'n" where
  "computeACF_fl A audioSamples tau =
     (let maxTau = int (length audioSamples) - 1 in
      if int tau > maxTau then fl_num A 0
      else fold (\<lambda>x acf. fl_add A acf (fl_mul A (audioSamples ! x) (audioSamples ! (x + tau))))
             [0..<length audioSamples - tau] (fl_num A 0))"

definition computeDF_fl :: "'n arith \<Rightarrow> 'n list \<Rightarrow> nat \<Rightarrow> 'n" where
  "computeDF_fl A audioSamples tau =
     (let r0 = computeACF_fl A audioSamples 0;
          rShift = computeACF_fl A (drop tau audioSamples) 0;
          rTau = computeACF_fl A audioSamples tau
      in fl_sub A (fl_add A r0 rShift) (fl_mul A (fl_num A 2) rTau))"

definition cmndf_step_fl :: "'n arith \<Rightarrow> 'n list \<Rightarrow> nat \<Rightarrow> 'n \<times> 'n list \<Rightarrow> 'n \<times> 'n list" where
  "cmndf_step_fl A df tau st =
     (let cumulativeDF = fl_add A (fst st) (df ! tau) in
      (cumulativeDF,
       (snd st)[tau := fl_store A
          (if fl_eq A cumulativeDF (fl_num A 0) then fl_num A 1
           else fl_div A (fl_mul A (df ! tau) (fl_num A tau)) cumulativeDF)]))"

definition computeCMNDF_fl :: "'n arith \<Rightarrow> 'n list \<Rightarrow> nat \<Rightarrow> nat \<Rightarrow> 'n list" where
  "computeCMNDF_fl A audioSamples tauMin tauMax =
     (if audioSamples = [] then []
      else
        let startTau = max 1 tauMin;
            maxTau = min tauMax (length audioSamples - 1);
            df0 = replicate (maxTau + 1) (fl_num A 0);
            cmndf0 = replicate (maxTau + 1) (fl_num A 0)
        in if startTau > maxTau then cmndf0
           else
             let df = fold (\<lambda>tau df. df[tau := fl_store A (computeDF_fl A audioSamples tau)])
                        [1..<maxTau + 1] df0;
                 cmndf1 = cmndf0[0 := fl_store A (fl_num A 1)]
             in snd (fold (cmndf_step_fl A df) [1..<maxTau + 1] (fl_num A 0, cmndf1)))"

subsection \<open>Rounding to binary32\<close>

text \<open>
  \<open>expo x\<close> is the exponent of a non-zero \<open>x\<close>: \<open>2 ^ expo x \<le> |x| < 2 ^ (expo x + 1)\<close>.
  \<open>rne\<close> rounds to the nearest integer, ties to even. \<open>round_ieee\<close> rounds to the format
  with \<open>prec\<close> significant bits and exponents \<open>emin..emax\<close>: the spacing of the format
  around \<open>x\<close> is \<open>2 ^ (e - (prec - 1))\<close>, with \<open>e\<close> not below \<open>emin\<close> (subnormal numbers), and
  a rounded value of \<open>2 ^ (emax + 1)\<close> or more is an infinity.

  \<open>f32_arith\<close> rounds the stores to binary32 and, as everywhere in this theory, takes the
  binary64 operations exact. It is used on inputs where the sums, products and differences
  are binary64 numbers and the rounding of the one inexact quotient, \<open>4/3\<close>, to binary64
  does not change its rounding to binary32.
\<close>

function expo_up :: "real \<Rightarrow> int" where
  "expo_up x = (if x < 2 then 0 else 1 + expo_up (x / 2))"
  by pat_completeness auto
termination
proof (relation "measure (\<lambda>x. nat \<lfloor>x\<rfloor>)")
  show "wf (measure (\<lambda>x. nat \<lfloor>x::real\<rfloor>))" by simp
next
  fix x :: real assume "\<not> x < 2"
  then have "x / 2 \<le> x - 1" by simp
  then have "\<lfloor>x / 2\<rfloor> \<le> \<lfloor>x - 1\<rfloor>" by (rule floor_mono)
  moreover have "1 \<le> \<lfloor>x\<rfloor>" using \<open>\<not> x < 2\<close> by (simp add: le_floor_iff)
  ultimately show "(x / 2, x) \<in> measure (\<lambda>x. nat \<lfloor>x\<rfloor>)" by simp
qed

function expo_down :: "real \<Rightarrow> int" where
  "expo_down x = (if x \<le> 0 \<or> 1 \<le> x then 0 else expo_down (2 * x) - 1)"
  by pat_completeness auto
termination
proof (relation "measure (\<lambda>x. nat \<lfloor>1 / x\<rfloor>)")
  show "wf (measure (\<lambda>x. nat \<lfloor>1 / x::real\<rfloor>))" by simp
next
  fix x :: real assume a: "\<not> (x \<le> 0 \<or> 1 \<le> x)"
  define y where "y = 1 / x"
  from a have y: "1 < y" unfolding y_def by simp
  have half: "1 / (2 * x) = y / 2" unfolding y_def by simp
  have one: "1 \<le> \<lfloor>y\<rfloor>" using y by (simp add: le_floor_iff)
  have "\<lfloor>y / 2\<rfloor> < \<lfloor>y\<rfloor>"
  proof (cases "y < 2")
    case True
    with y have "\<lfloor>y / 2\<rfloor> = 0" by (simp add: floor_eq_iff)
    with one show ?thesis by simp
  next
    case False
    then have "y / 2 \<le> y - 1" by simp
    then have "\<lfloor>y / 2\<rfloor> \<le> \<lfloor>y - 1\<rfloor>" by (rule floor_mono)
    then show ?thesis by simp
  qed
  with one show "(2 * x, x) \<in> measure (\<lambda>x. nat \<lfloor>1 / x\<rfloor>)"
    unfolding in_measure half y_def [symmetric] by simp
qed

definition expo :: "real \<Rightarrow> int" where
  "expo x = (if 1 \<le> \<bar>x\<bar> then expo_up \<bar>x\<bar> else expo_down \<bar>x\<bar>)"

definition rne :: "real \<Rightarrow> int" where
  "rne q = (let f = \<lfloor>q\<rfloor>; d = q - of_int f
            in if d < 1 / 2 then f else if 1 / 2 < d then f + 1
               else if even f then f else f + 1)"

definition round_ieee :: "nat \<Rightarrow> int \<Rightarrow> int \<Rightarrow> real \<Rightarrow> jsnum" where
  "round_ieee prec emin emax x =
     (if x = 0 then Fin 0
      else
        let e = max emin (expo x);
            u = 2 powi (e - (int prec - 1));
            y = of_int (rne (x / u)) * u
        in if 2 powi (emax + 1) \<le> \<bar>y\<bar> then (if 0 < x then PInf else NInf) else Fin y)"

fun float32 :: "jsnum \<Rightarrow> jsnum" where
  "float32 (Fin x) = round_ieee 24 (- 126) 127 x"
| "float32 v = v"

fun js_eq :: "jsnum \<Rightarrow> jsnum \<Rightarrow> bool" where
  "js_eq (Fin a) (Fin b) = (a = b)"
| "js_eq PInf PInf = True"
| "js_eq NInf NInf = True"
| "js_eq _ _ = False"

definition f32_arith :: "jsnum arith" where
  "f32_arith =
     \<lparr>fl_num = (\<lambda>n. Fin (real n)), fl_add = jadd, fl_sub = jsub, fl_mul = jmul, fl_div = jdiv,
      fl_eq = js_eq, fl_store = float32\<rparr>"

section \<open>The smoothing step of the detection loop (app.js)\<close>

definition SMOOTHING_FRAMES :: nat where
  "SMOOTHING_FRAMES = 3"

definition CONFIDENCE_THRESHOLD :: real where
  "CONFIDENCE_THRESHOLD = 15 / 100"

definition average :: "jsnum list \<Rightarrow> jsnum" where
  "average array =
     (if length array = 0 then Fin 0
      else
        let total = fold (\<lambda>i total. jadd total (array ! i)) [0..<length array] (Fin 0)
        in jdiv total (Fin (real (length array))))"

text \<open>
  One pass through the body of \<open>detectionLoop\<close>, from the detection to the value handed to
  \<open>frequencyToNote\<close>: the state is \<open>frequencyHistory\<close>, the output is \<open>avgFrequency\<close>, or
  \<open>None\<close> when \<open>note\<close> stays \<open>null\<close>. \<open>detection && ...\<close> fails on \<open>null\<close>; an undefined
  confidence compares as \<open>NaN\<close>.
\<close>

definition detectionLoop_smooth ::
  "jsnum list \<Rightarrow> detection option \<Rightarrow> jsnum list \<times> jsnum option" where
  "detectionLoop_smooth frequencyHistory det =
     (case det of
        None \<Rightarrow> ([], None)
      | Some d \<Rightarrow>
          if jlt (to_num (confidence d)) (Fin CONFIDENCE_THRESHOLD) then
            let pushed = frequencyHistory @ [frequency d];
                history = (if length pushed > SMOOTHING_FRAMES then tl pushed else pushed);
                avgFrequency = average history
            in (history, Some avgFrequency)
          else ([], None))"

text \<open>Several frames in a row: the history after the last one, and its output.\<close>

fun detectionLoop_frames ::
  "jsnum list \<Rightarrow> detection option list \<Rightarrow> jsnum list \<times> jsnum option" where
  "detectionLoop_frames h [] = (h, None)"
| "detectionLoop_frames h [d] = detectionLoop_smooth h d"
| "detectionLoop_frames h (d # ds) = detectionLoop_frames (fst (detectionLoop_smooth h d)) ds"

section \<open>What the specification says, as definitions of its own\<close>

subsection \<open>Difference function\<close>

text \<open>
  The autocorrelation is the sum of \<open>signal[i] * signal[i + lag]\<close> over the overlap, and the
  squared difference compares the signal with its copy shifted by \<open>tau\<close> on that overlap.
  The energy of the last \<open>tau\<close> samples is what separates the two.
\<close>

definition ACF :: "real list \<Rightarrow> nat \<Rightarrow> real" where
  "ACF signal lag = (\<Sum>i<length signal - lag. signal ! i * signal ! (i + lag))"

definition squared_difference :: "real list \<Rightarrow> nat \<Rightarrow> real" where
  "squared_difference frame tau = (\<Sum>i<length frame - tau. (frame ! i - frame ! (i + tau))\<^sup>2)"

definition tail_energy :: "real list \<Rightarrow> nat \<Rightarrow> real" where
  "tail_energy frame tau = (\<Sum>i = length frame - tau..<length frame. (frame ! i)\<^sup>2)"

subsection \<open>Normalization\<close>

definition running_sum :: "real list \<Rightarrow> nat \<Rightarrow> real" where
  "running_sum frame tau = (\<Sum>k = 1..tau. computeDF frame k)"

definition cmndf_value :: "real list \<Rightarrow> nat \<Rightarrow> real" where
  "cmndf_value frame tau =
     (if running_sum frame tau = 0 then 1
      else computeDF frame tau * real tau / running_sum frame tau)"

text \<open>
  With the arithmetic of the machine: \<open>d(tau)\<close> is the difference value as it is stored in
  \<open>df\<close>, and the running sum adds \<open>d(1), ..., d(tau)\<close> to 0 from left to right.
\<close>

definition stored_d :: "'n arith \<Rightarrow> 'n list \<Rightarrow> nat \<Rightarrow> 'n" where
  "stored_d A frame tau = fl_store A (computeDF_fl A frame tau)"

definition running_sum_fl :: "'n arith \<Rightarrow> 'n list \<Rightarrow> nat \<Rightarrow> 'n" where
  "running_sum_fl A frame tau =
     fold (\<lambda>k s. fl_add A s (stored_d A frame k)) [1..<tau + 1] (fl_num A 0)"

subsection \<open>The lag chosen by the threshold search\<close>

text \<open>
  A lag is below the threshold when the curve has a value there and the value is smaller.
  The first such lag of the range starts a strictly decreasing run; the chosen lag is where
  the run ends, inside the range and the curve. Without such a lag the chosen lag is an
  index of the smallest value the curve has in the range.
\<close>

definition below :: "real list \<Rightarrow> real \<Rightarrow> nat \<Rightarrow> bool" where
  "below cmndf threshold t = (t < length cmndf \<and> cmndf ! t < threshold)"

definition first_crossing :: "real list \<Rightarrow> real \<Rightarrow> nat \<Rightarrow> nat \<Rightarrow> nat option" where
  "first_crossing cmndf threshold tauMin tauMax = find (below cmndf threshold) [tauMin..<tauMax]"

definition strictly_decreasing_run :: "real list \<Rightarrow> nat \<Rightarrow> nat \<Rightarrow> bool" where
  "strictly_decreasing_run cmndf a b =
     (\<forall>i \<in> set [a..<b]. i + 1 < length cmndf \<and> cmndf ! (i + 1) < cmndf ! i)"

definition run_continues :: "real list \<Rightarrow> nat \<Rightarrow> nat \<Rightarrow> bool" where
  "run_continues cmndf tauMax b =
     (b + 1 < tauMax \<and> b + 1 < length cmndf \<and> cmndf ! (b + 1) < cmndf ! b)"

definition valley_bottom :: "real list \<Rightarrow> nat \<Rightarrow> nat \<Rightarrow> nat \<Rightarrow> bool" where
  "valley_bottom cmndf tauMax t0 r =
     (t0 \<le> r \<and> r < tauMax \<and> r < length cmndf \<and> strictly_decreasing_run cmndf t0 r
      \<and> \<not> run_continues cmndf tauMax r)"

definition global_min_index :: "real list \<Rightarrow> nat \<Rightarrow> nat \<Rightarrow> nat \<Rightarrow> bool" where
  "global_min_index cmndf tauMin tauMax r =
     (tauMin \<le> r \<and> r < tauMax \<and> r < length cmndf
      \<and> (\<forall>j \<in> set [tauMin..<tauMax]. j < length cmndf \<longrightarrow> cmndf ! r \<le> cmndf ! j))"

definition chosen_lag_spec :: "real list \<Rightarrow> real \<Rightarrow> nat \<Rightarrow> nat \<Rightarrow> nat \<Rightarrow> bool" where
  "chosen_lag_spec cmndf threshold tauMin tauMax r =
     (case first_crossing cmndf threshold tauMin tauMax of
        Some t0 \<Rightarrow> valley_bottom cmndf tauMax t0 r
      | None \<Rightarrow> global_min_index cmndf tauMin tauMax r)"

text \<open>The first index, from \<open>lo\<close>, of the smallest value the curve has in the range.\<close>

definition first_min :: "real list \<Rightarrow> nat \<Rightarrow> nat \<Rightarrow> nat \<Rightarrow> bool" where
  "first_min c lo hi r =
     (lo \<le> r \<and> r < hi \<and> r < length c
      \<and> (\<forall>j. lo \<le> j \<and> j < hi \<and> j < length c \<longrightarrow> c ! r \<le> c ! j)
      \<and> (\<forall>j. lo \<le> j \<and> j < r \<longrightarrow> c ! r < c ! j))"

subsection \<open>The reference update of the smoother\<close>

text \<open>
  A detection passes the gate when it is present and its confidence is a number below 0.15.
  Then its frequency joins the queue, the oldest entry leaves if the queue holds more than
  three, and the output is the arithmetic mean of the queue. Otherwise the queue is cleared
  and there is no output.
\<close>

definition gate_passes :: "detection option \<Rightarrow> bool" where
  "gate_passes det =
     (case det of
        None \<Rightarrow> False
      | Some d \<Rightarrow> (case confidence d of None \<Rightarrow> False | Some c \<Rightarrow> c < 15 / 100))"

definition arithmetic_mean :: "jsnum list \<Rightarrow> jsnum" where
  "arithmetic_mean q = jdiv (foldr jadd q (Fin 0)) (Fin (real (length q)))"

definition reference_update ::
  "jsnum list \<Rightarrow> detection option \<Rightarrow> jsnum list \<times> jsnum option" where
  "reference_update q det =
     (case det of
        None \<Rightarrow> ([], None)
      | Some d \<Rightarrow>
          if gate_passes det then
            let q1 = q @ [frequency d];
                q2 = (if length q1 > 3 then drop 1 q1 else q1)
            in (q2, Some (arithmetic_mean q2))
          else ([], None))"

section \<open>Basic facts\<close>

subsection \<open>Reads and comparisons\<close>

lemma jlt_rd_rd [simp]:
  "jlt (to_num (rd c i)) (to_num (rd c j)) \<longleftrightarrow> i < length c \<and> j < length c \<and> c ! i < c ! j"
  by (simp add: rd_def)

lemma jlt_rd_Fin [simp]:
  "jlt (to_num (rd c i)) (Fin t) \<longleftrightarrow> i < length c \<and> c ! i < t"
  by (simp add: rd_def)

lemma jlt_rd_Some [simp]:
  "jlt (to_num (rd c i)) (to_num (Some v)) \<longleftrightarrow> i < length c \<and> c ! i < v"
  by (simp add: rd_def)

lemma jlt_NaN_right [simp]: "jlt x NaN = False"
  by (cases x) simp_all

declare valley_descent.simps [simp del]
declare findGlobalMinIndex_loop.simps [simp del]
declare findBestTau_loop.simps [simp del]
declare valley_descent_tr.simps [simp del]
declare findGlobalMinIndex_loop_tr.simps [simp del]
declare findBestTau_loop_tr.simps [simp del]

section \<open>The difference function\<close>

lemma fold_add_sum:
  "fold (\<lambda>x (acc::real). acc + f x) [0..<n] a = a + (\<Sum>i<n. f i)"
  by (induction n) simp_all

lemma computeACF_sum: "computeACF xs tau = ACF xs tau"
proof (cases "tau < length xs")
  case True
  then show ?thesis by (simp add: computeACF_def ACF_def fold_add_sum)
next
  case False
  then show ?thesis by (simp add: computeACF_def ACF_def)
qed

lemma energy_split:
  "(\<Sum>i<length xs. (xs ! i)\<^sup>2) = (\<Sum>i<length xs - tau. ((xs::real list) ! i)\<^sup>2) + tail_energy xs tau"
proof -
  have "{..<length xs} = {..<length xs - tau} \<union> {length xs - tau..<length xs}"
    by auto
  moreover have "{..<length xs - tau} \<inter> {length xs - tau..<length xs} = {}"
    by auto
  ultimately show ?thesis
    unfolding tail_energy_def
    by (metis finite_atLeastLessThan finite_lessThan sum.union_disjoint)
qed

lemma computeDF_ACF:
  "computeDF xs tau = ACF xs 0 + ACF (drop tau xs) 0 - 2 * ACF xs tau"
  by (simp add: computeDF_def computeACF_sum)

lemma computeDF_expand:
  "computeDF xs tau = squared_difference xs tau + tail_energy xs tau"
proof -
  let ?n = "length xs - tau"
  have a: "ACF xs 0 = (\<Sum>i<?n. (xs ! i)\<^sup>2) + tail_energy xs tau"
    using energy_split [of xs tau] by (simp add: ACF_def power2_eq_square)
  have b: "ACF (drop tau xs) 0 = (\<Sum>i<?n. (xs ! (i + tau))\<^sup>2)"
    by (simp add: ACF_def power2_eq_square add.commute)
  have c: "ACF xs tau = (\<Sum>i<?n. xs ! i * xs ! (i + tau))"
    by (simp add: ACF_def)
  have "squared_difference xs tau =
      (\<Sum>i<?n. (xs ! i)\<^sup>2) + (\<Sum>i<?n. (xs ! (i + tau))\<^sup>2)
      - 2 * (\<Sum>i<?n. xs ! i * xs ! (i + tau))"
    by (simp add: squared_difference_def power2_diff sum.distrib sum_subtractf sum_distrib_left mult.assoc)
  then show ?thesis
    unfolding computeDF_ACF a b c by simp
qed

text \<open>
  The computed value in closed form: the three autocorrelation terms, which amount to the
  squared difference over the overlap plus the energy of the last \<open>tau\<close> samples.
\<close>

lemma computeDF_value:
  "computeDF frame tau = ACF frame 0 + ACF (drop tau frame) 0 - 2 * ACF frame tau
   \<and> computeDF frame tau = squared_difference frame tau + tail_energy frame tau"
  by (simp add: computeDF_expand [symmetric]) (simp add: computeDF_def computeACF_sum)

text \<open>
  Claim C8 says that the computed value is the difference function: the squared difference
  between the frame and its copy shifted by \<open>tau\<close>, summed over the overlap. \<open>computeDF\<close>
  takes the terms \<open>rShift\<close> and \<open>rTau\<close> over the overlap but the first energy term \<open>r0\<close> over
  the whole frame, so the value is too large by the energy of the last \<open>tau\<close> samples. On the
  periodic frame \<open>[1, -1, 1, -1]\<close> at its period 2 the squared difference is 0 and the
  computed value is 2; on \<open>[0, 1]\<close> at lag 1 they are 1 and 2. On two periods of
  \<open>[1, 0, -1, 0]\<close> at 20000 Hz the confidence at the period 4 is \<open>2/7\<close>, not 0, which is
  not below the confidence threshold of the detection loop.
\<close>

theorem computeDF_periodic_frame:
  "squared_difference [1, - 1, 1, - 1] 2 = 0
   \<and> computeDF [1, - 1, 1, - 1] 2 = 2
   \<and> squared_difference [0, 1] 1 = 1
   \<and> computeDF [0, 1] 1 = 2
   \<and> squared_difference [1, 0, - 1, 0, 1, 0, - 1, 0] 4 = 0
   \<and> computeDF [1, 0, - 1, 0, 1, 0, - 1, 0] 4 = 2
   \<and> detect_tau [1, 0, - 1, 0, 1, 0, - 1, 0] 20000 = 4
   \<and> detect_confidence [1, 0, - 1, 0, 1, 0, - 1, 0] 20000 = Some (2 / 7)
   \<and> \<not> (2 / 7 < CONFIDENCE_THRESHOLD)"
proof -
  have a: "squared_difference [1, - 1, 1, - 1] 2 = 0 \<and> computeDF [1, - 1, 1, - 1] 2 = 2"
    by (simp add: computeDF_def computeACF_def squared_difference_def numeral_2_eq_2)
  have b: "squared_difference [0, 1] 1 = 1 \<and> computeDF [0, 1] 1 = 2"
    by (simp add: computeDF_def computeACF_def squared_difference_def)
  have c: "squared_difference [1, 0, - 1, 0, 1, 0, - 1, 0] 4 = 0"
    by (simp add: squared_difference_def eval_nat_numeral lessThan_Suc)
  have d: "computeDF [1, 0, - 1, 0, 1, 0, - 1, 0] 4 = 2" by code_simp
  have e: "detect_tau [1, 0, - 1, 0, 1, 0, - 1, 0] 20000 = 4" by code_simp
  have f: "detect_confidence [1, 0, - 1, 0, 1, 0, - 1, 0] 20000 = Some (2 / 7)" by code_simp
  have g: "\<not> (2 / 7 < CONFIDENCE_THRESHOLD)" by (simp add: CONFIDENCE_THRESHOLD_def)
  from a b c d e f g show ?thesis by blast
qed

section \<open>The normalized curve\<close>

lemma fold_upt_Suc:
  "Suc 0 \<le> n \<Longrightarrow> fold f [Suc 0..<Suc n] s = f n (fold f [Suc 0..<n] s)"
  by simp

lemma fold_upt_empty:
  "\<not> Suc 0 \<le> n \<Longrightarrow> fold f [Suc 0..<Suc n] s = s"
  by simp

lemma df_fill_length:
  "length (fold (\<lambda>tau df. df[tau := g tau]) [Suc 0..<n] df0) = length (df0::real list)"
  by (induction n) simp_all

lemma df_fill_nth:
  "i < length df0 \<Longrightarrow>
   fold (\<lambda>tau df. df[tau := g tau]) [Suc 0..<n] df0 ! i =
     (if 1 \<le> i \<and> i < n then g i else (df0::real list) ! i)"
proof (induction n)
  case 0
  then show ?case by simp
next
  case (Suc n)
  show ?case
  proof (cases "Suc 0 \<le> n")
    case True
    show ?thesis
    proof (cases "i = n")
      case True
      with Suc.prems \<open>Suc 0 \<le> n\<close> show ?thesis
        by (simp only: fold_upt_Suc) (simp add: df_fill_length)
    next
      case False
      with Suc \<open>Suc 0 \<le> n\<close> show ?thesis
        by (simp only: fold_upt_Suc) auto
    qed
  next
    case False
    with Suc.prems show ?thesis
      by auto
  qed
qed

lemma cmndf_fold_fst:
  "fst (fold (cmndf_step df) [Suc 0..<n] (0, c0)) = (\<Sum>k = 1..<n. df ! k)"
proof (induction n)
  case 0
  then show ?case by simp
next
  case (Suc n)
  show ?case
  proof (cases "Suc 0 \<le> n")
    case True
    have "fst (cmndf_step df n st) = fst st + df ! n" for st
      by (simp add: cmndf_step_def Let_def)
    with True Suc show ?thesis
      by (simp only: fold_upt_Suc) simp
  next
    case False
    then show ?thesis by simp
  qed
qed

lemma cmndf_fold_length:
  "length (snd (fold (cmndf_step df) [Suc 0..<n] (0, c0))) = length c0"
  by (induction n) (simp_all add: cmndf_step_def Let_def)

lemma cmndf_fold_nth:
  "i < length c0 \<Longrightarrow>
   snd (fold (cmndf_step df) [Suc 0..<n] (0, c0)) ! i =
     (if 1 \<le> i \<and> i < n
      then (if (\<Sum>k = 1..i. df ! k) = 0 then 1 else (df ! i * real i) / (\<Sum>k = 1..i. df ! k))
      else c0 ! i)"
proof (induction n)
  case 0
  then show ?case by simp
next
  case (Suc n)
  show ?case
  proof (cases "Suc 0 \<le> n")
    case True
    define st where "st = fold (cmndf_step df) [Suc 0..<n] (0, c0)"
    have step: "fold (cmndf_step df) [Suc 0..<Suc n] (0, c0) = cmndf_step df n st"
      using True unfolding st_def by (rule fold_upt_Suc)
    have cum: "fst st + df ! n = (\<Sum>k = 1..n. df ! k)"
      using True unfolding st_def cmndf_fold_fst
      by (simp add: atLeastLessThanSuc_atLeastAtMost [symmetric])
    have len: "length (snd st) = length c0"
      unfolding st_def by (rule cmndf_fold_length)
    have ih: "snd st ! i =
      (if 1 \<le> i \<and> i < n
       then (if (\<Sum>k = 1..i. df ! k) = 0 then 1 else (df ! i * real i) / (\<Sum>k = 1..i. df ! k))
       else c0 ! i)"
      unfolding st_def using Suc by simp
    show ?thesis
    proof (cases "i = n")
      case True
      with Suc.prems \<open>Suc 0 \<le> n\<close> show ?thesis
        unfolding step by (simp add: cmndf_step_def Let_def cum len)
    next
      case False
      then show ?thesis
        unfolding step using ih by (auto simp: cmndf_step_def Let_def)
    qed
  next
    case False
    with Suc.prems show ?thesis
      by auto
  qed
qed

lemma computeCMNDF_length:
  "audioSamples \<noteq> [] \<Longrightarrow>
   length (computeCMNDF audioSamples tauMin tauMax) = min tauMax (length audioSamples - 1) + 1"
  by (simp add: computeCMNDF_def Let_def cmndf_fold_length del: upt_Suc)

lemma computeCMNDF_nth:
  assumes "audioSamples \<noteq> []"
    and "max 1 tauMin \<le> min tauMax (length audioSamples - 1)"
    and "tau \<le> min tauMax (length audioSamples - 1)"
  shows "computeCMNDF audioSamples tauMin tauMax ! tau =
           (if tau = 0 then 1 else cmndf_value audioSamples tau)"
proof -
  define m where "m = min tauMax (length audioSamples - 1)"
  define df where "df = fold (\<lambda>tau df. df[tau := computeDF audioSamples tau]) [1..<m + 1]
               (replicate (m + 1) (0::real))"
  have df: "df ! k = computeDF audioSamples k" if "1 \<le> k" "k \<le> m" for k
    using that unfolding df_def by (simp add: df_fill_nth del: upt_Suc)
  have sums: "(\<Sum>k = 1..i. df ! k) = running_sum audioSamples i" if "i \<le> m" for i
    unfolding running_sum_def
    by (rule sum.cong) (use that df in auto)
  have ng: "\<not> max 1 tauMin > min tauMax (length audioSamples - 1)"
    using assms(2) by linarith
  have c: "computeCMNDF audioSamples tauMin tauMax =
             snd (fold (cmndf_step df) [1..<m + 1] (0, (replicate (m + 1) (0::real))[0 := 1]))"
    unfolding computeCMNDF_def Let_def df_def m_def
    by (simp only: if_not_P [OF ng] if_not_P [OF assms(1)])
  show ?thesis
  proof (cases "tau = 0")
    case True
    then show ?thesis unfolding c by (simp add: cmndf_fold_nth del: upt_Suc replicate_Suc)
  next
    case False
    with assms(3) have "1 \<le> tau" "tau \<le> m" by (auto simp: m_def)
    then show ?thesis
      unfolding c
      by (simp add: cmndf_fold_nth sums [symmetric] df cmndf_value_def del: upt_Suc replicate_Suc)
  qed
qed

section \<open>The threshold search\<close>

lemma valley_descent_spec:
  "b < tauMax \<Longrightarrow> b < length c \<Longrightarrow> valley_bottom c tauMax b (valley_descent c tauMax b)"
proof (induction c tauMax b rule: valley_descent.induct)
  case (1 c tauMax b)
  show ?case
  proof (cases "run_continues c tauMax b")
    case True
    then have go: "valley_descent c tauMax b = valley_descent c tauMax (b + 1)"
      by (subst valley_descent.simps) (simp add: run_continues_def)
    from True have "valley_bottom c tauMax (b + 1) (valley_descent c tauMax (b + 1))"
      using "1.IH" by (simp add: run_continues_def)
    then have rec: "b + 1 \<le> valley_descent c tauMax (b + 1)"
      "valley_descent c tauMax (b + 1) < tauMax" "valley_descent c tauMax (b + 1) < length c"
      "strictly_decreasing_run c (b + 1) (valley_descent c tauMax (b + 1))"
      "\<not> run_continues c tauMax (valley_descent c tauMax (b + 1))"
      by (simp_all add: valley_bottom_def)
    have "strictly_decreasing_run c b (valley_descent c tauMax (b + 1))"
      unfolding strictly_decreasing_run_def
    proof
      fix i assume "i \<in> set [b..<valley_descent c tauMax (b + 1)]"
      then consider "i = b" | "i \<in> set [b + 1..<valley_descent c tauMax (b + 1)]"
        by (cases "i = b") auto
      then show "i + 1 < length c \<and> c ! (i + 1) < c ! i"
      proof cases
        case 1
        with True show ?thesis by (simp add: run_continues_def)
      next
        case 2
        with rec(4) show ?thesis unfolding strictly_decreasing_run_def by blast
      qed
    qed
    with rec show ?thesis
      unfolding go valley_bottom_def by simp
  next
    case False
    then have "valley_descent c tauMax b = b"
      by (subst valley_descent.simps) (auto simp: run_continues_def)
    with False 1(2,3) show ?thesis
      by (simp add: valley_bottom_def strictly_decreasing_run_def)
  qed
qed

lemma valley_descent_le:
  "b < length c \<Longrightarrow>
   valley_descent c tauMax b < length c \<and> c ! valley_descent c tauMax b \<le> c ! b"
proof (induction c tauMax b rule: valley_descent.induct)
  case (1 c tauMax b)
  show ?case
  proof (cases "run_continues c tauMax b")
    case True
    then have go: "valley_descent c tauMax b = valley_descent c tauMax (b + 1)"
      by (subst valley_descent.simps) (simp add: run_continues_def)
    from True "1.IH" show ?thesis
      unfolding go by (auto simp: run_continues_def)
  next
    case False
    then have "valley_descent c tauMax b = b"
      by (subst valley_descent.simps) (auto simp: run_continues_def)
    with 1(2) show ?thesis by simp
  qed
qed

lemma valley_bottom_unique:
  "valley_bottom c tauMax t0 r \<Longrightarrow> valley_bottom c tauMax t0 r' \<Longrightarrow> r = r'"
proof (rule ccontr)
  assume a: "valley_bottom c tauMax t0 r" and b: "valley_bottom c tauMax t0 r'" and ne: "r \<noteq> r'"
  { fix x y assume x: "valley_bottom c tauMax t0 x" and y: "valley_bottom c tauMax t0 y" and lt: "x < y"
    from y lt x have "run_continues c tauMax x"
      unfolding valley_bottom_def strictly_decreasing_run_def run_continues_def
      by auto
    with x have False by (simp add: valley_bottom_def) }
  with a b ne show False
    by (metis nat_neq_iff)
qed

lemma findGlobalMinIndex_loop_undefined:
  "mv = None \<Longrightarrow> findGlobalMinIndex_loop c hi mv m i = m"
proof (induction c hi mv m i rule: findGlobalMinIndex_loop.induct)
  case (1 c hi mv m i)
  then show ?case
    by (subst findGlobalMinIndex_loop.simps) simp
qed

lemma findGlobalMinIndex_loop_first_min:
  "mv = Some (c ! m) \<Longrightarrow> first_min c lo i m \<Longrightarrow> i \<le> hi \<Longrightarrow>
   first_min c lo hi (findGlobalMinIndex_loop c hi mv m i)"
proof (induction c hi mv m i rule: findGlobalMinIndex_loop.induct)
  case (1 c hi mv m i)
  show ?case
  proof (cases "i < hi")
    case False
    with 1(3,4,5) show ?thesis
      by (subst findGlobalMinIndex_loop.simps) simp
  next
    case True
    show ?thesis
    proof (cases "i < length c \<and> c ! i < c ! m")
      case yes: True
      have fm: "first_min c lo (i + 1) i"
        using 1(4) yes unfolding first_min_def
        by (auto simp: less_Suc_eq)
      have "findGlobalMinIndex_loop c hi mv m i =
            findGlobalMinIndex_loop c hi (rd c i) i (i + 1)"
        using True yes 1(3) by (subst findGlobalMinIndex_loop.simps) simp
      moreover have "first_min c lo hi (findGlobalMinIndex_loop c hi (rd c i) i (i + 1))"
        using "1.IH"(1) True yes fm 1(3) by (simp add: rd_def)
      ultimately show ?thesis by simp
    next
      case no: False
      have fm: "first_min c lo (i + 1) m"
        using 1(4) no unfolding first_min_def
        by (auto simp: less_Suc_eq)
      have "findGlobalMinIndex_loop c hi mv m i =
            findGlobalMinIndex_loop c hi mv m (i + 1)"
        using True no 1(3) by (subst findGlobalMinIndex_loop.simps) auto
      moreover have "first_min c lo hi (findGlobalMinIndex_loop c hi mv m (i + 1))"
        using "1.IH"(2) True no fm 1(3) by auto
      ultimately show ?thesis by simp
    qed
  qed
qed

lemma findGlobalMinIndex_first_min:
  assumes "lo < hi" "lo < length c"
  shows "first_min c lo hi (findGlobalMinIndex c lo hi)"
proof -
  have "first_min c lo (lo + 1) lo"
    using assms by (auto simp: first_min_def less_Suc_eq_le)
  then show ?thesis
    using assms findGlobalMinIndex_loop_first_min [of "rd c lo" c lo lo "lo + 1" hi]
    by (simp add: findGlobalMinIndex_def rd_def)
qed


lemma first_crossing_None:
  "first_crossing c thr lo hi = None \<longleftrightarrow> (\<forall>t. lo \<le> t \<and> t < hi \<longrightarrow> \<not> below c thr t)"
  by (auto simp: first_crossing_def find_None_iff)

lemma first_crossing_Some:
  "first_crossing c thr lo hi = Some t0 \<longleftrightarrow>
     lo \<le> t0 \<and> t0 < hi \<and> below c thr t0 \<and> (\<forall>t. lo \<le> t \<and> t < t0 \<longrightarrow> \<not> below c thr t)"
proof -
  have "find (below c thr) [lo..<hi] = Some t0 \<longleftrightarrow>
     lo \<le> t0 \<and> t0 < hi \<and> below c thr t0 \<and> (\<forall>t. lo \<le> t \<and> t < t0 \<longrightarrow> \<not> below c thr t)"
    (is "?L \<longleftrightarrow> ?R")
  proof
    assume ?L
    then obtain i where i: "i < length [lo..<hi]" "below c thr ([lo..<hi] ! i)"
      "t0 = [lo..<hi] ! i" "\<forall>j<i. \<not> below c thr ([lo..<hi] ! j)"
      unfolding find_Some_iff by blast
    from i(1) have ihi: "lo + i < hi" by simp
    from i(3) ihi have t0: "t0 = lo + i" by simp
    from i(2) ihi have b: "below c thr (lo + i)" by simp
    have m: "\<not> below c thr t" if "lo \<le> t" "t < t0" for t
    proof -
      from that t0 ihi have "t - lo < i" "[lo..<hi] ! (t - lo) = t" by simp_all
      with i(4) show ?thesis by metis
    qed
    show ?R
      unfolding t0 using ihi b m [unfolded t0] by simp
  next
    assume r: ?R
    then have "t0 - lo < length [lo..<hi] \<and> below c thr ([lo..<hi] ! (t0 - lo))
        \<and> t0 = [lo..<hi] ! (t0 - lo) \<and> (\<forall>j<t0 - lo. \<not> below c thr ([lo..<hi] ! j))"
      by auto
    then show ?L
      unfolding find_Some_iff by (rule exI [of _ "t0 - lo"])
  qed
  then show ?thesis by (simp add: first_crossing_def)
qed

lemma findBestTau_loop_spec:
  assumes "lo \<le> tau" "lo < hi" "lo < length c"
    and "\<forall>t. lo \<le> t \<and> t < tau \<longrightarrow> \<not> below c thr t"
  shows "chosen_lag_spec c thr lo hi (findBestTau_loop c thr lo hi tau)"
  using assms
proof (induction c thr lo hi tau rule: findBestTau_loop.induct)
  case (1 c thr lo hi tau)
  show ?case
  proof (cases "tau < hi")
    case False
    then have r: "findBestTau_loop c thr lo hi tau = findGlobalMinIndex c lo hi"
      by (subst findBestTau_loop.simps) simp
    from False 1(5) have "first_crossing c thr lo hi = None"
      by (auto simp: first_crossing_None)
    moreover have "global_min_index c lo hi (findGlobalMinIndex c lo hi)"
      using findGlobalMinIndex_first_min [OF 1(3,4)]
      by (auto simp: first_min_def global_min_index_def)
    ultimately show ?thesis
      by (simp add: r chosen_lag_spec_def)
  next
    case True
    show ?thesis
    proof (cases "below c thr tau")
      case yes: True
      then have r: "findBestTau_loop c thr lo hi tau = valley_descent c hi tau"
        using True by (subst findBestTau_loop.simps) (simp add: below_def)
      have "first_crossing c thr lo hi = Some tau"
        using yes True 1(2,5) by (simp add: first_crossing_Some)
      moreover have "valley_bottom c hi tau (valley_descent c hi tau)"
        using valley_descent_spec True yes by (simp add: below_def)
      ultimately show ?thesis
        by (simp add: r chosen_lag_spec_def)
    next
      case no: False
      then have r: "findBestTau_loop c thr lo hi tau = findBestTau_loop c thr lo hi (tau + 1)"
        using True by (subst findBestTau_loop.simps) (auto simp: below_def)
      have "\<forall>t. lo \<le> t \<and> t < tau + 1 \<longrightarrow> \<not> below c thr t"
        using 1(5) no by (auto simp: less_Suc_eq)
      then show ?thesis
        unfolding r using "1.IH" True no 1(2,3,4) by (simp add: below_def)
    qed
  qed
qed

text \<open>
  Claim C4, as amended. For every CMNDF curve and lag bounds with \<open>tauMin < tauMax\<close> and
  \<open>tauMin\<close> inside the curve, the lag chosen by the threshold search over
  \<open>tauMin \<le> tau < tauMax\<close> is the end, within the range and the curve, of the strictly
  decreasing run that starts at the first lag with a value below 0.1, or, if no value of the
  range is below 0.1, an index of the smallest value of the curve in that range.
\<close>

theorem findBestTau_chosen_lag:
  assumes "tauMin < tauMax" and "tauMin < length cmndf"
  shows "chosen_lag_spec cmndf THRESHOLD tauMin tauMax (findBestTau cmndf THRESHOLD tauMin tauMax)"
  unfolding findBestTau_def
  by (rule findBestTau_loop_spec) (use assms in auto)

theorem findBestTau_chosen_lag_witness:
  "(1::nat) < 5 \<and> 1 < length [1, 1 / 2, 1 / 20, 1 / 30, 1 / 5 :: real]
   \<and> chosen_lag_spec [1, 1 / 2, 1 / 20, 1 / 30, 1 / 5] THRESHOLD 1 5
        (findBestTau [1, 1 / 2, 1 / 20, 1 / 30, 1 / 5] THRESHOLD 1 5)"
proof -
  have h1: "(1::nat) < 5" by simp
  have h2: "1 < length [1, 1 / 2, 1 / 20, 1 / 30, 1 / 5 :: real]" by simp
  from findBestTau_chosen_lag [OF h1 h2] h1 h2 show ?thesis by blast
qed

text \<open>
  Claim C4 as stated, for every curve and all lag bounds, fails where the range holds no
  value of the curve. With \<open>tauMin = tauMax = 0\<close> (a sample rate below 27) the range is empty
  and the search returns 0; with the range \<open>2 \<le> tau < 4\<close> on a curve of two entries (a frame
  shorter than \<open>tauMin\<close>) it returns 2. Neither is the end of a run or the index of a minimum
  of the curve over the range. And the run is followed inside the range only: on the third
  curve the values keep falling up to index 3, but the search over \<open>1 \<le> tau < 3\<close> stops at 2.
\<close>

theorem findBestTau_degenerate_range:
  "findBestTau [0] THRESHOLD 0 0 = 0
   \<and> \<not> chosen_lag_spec [0] THRESHOLD 0 0 (findBestTau [0] THRESHOLD 0 0)
   \<and> findBestTau [0, 0] THRESHOLD 2 4 = 2
   \<and> \<not> chosen_lag_spec [0, 0] THRESHOLD 2 4 (findBestTau [0, 0] THRESHOLD 2 4)
   \<and> findBestTau [1, 1 / 20, 1 / 25, 1 / 50] THRESHOLD 1 3 = 2
   \<and> [1, 1 / 20, 1 / 25, 1 / 50 :: real] ! 3 < [1, 1 / 20, 1 / 25, 1 / 50] ! 2"
  by code_simp

lemma findBestTau_loop_crossing:
  assumes "tau \<le> t" "t < hi" "below c thr t"
  shows "below c thr (findBestTau_loop c thr lo hi tau)"
  using assms
proof (induction c thr lo hi tau rule: findBestTau_loop.induct)
  case (1 c thr lo hi tau)
  from 1(2,3) have True: "tau < hi" by simp
  show ?case
  proof (cases "below c thr tau")
    case yes: True
    then have r: "findBestTau_loop c thr lo hi tau = valley_descent c hi tau"
      using True by (subst findBestTau_loop.simps) (simp add: below_def)
    from yes valley_descent_le [of tau c hi] show ?thesis
      unfolding r by (auto simp: below_def)
  next
    case no: False
    then have r: "findBestTau_loop c thr lo hi tau = findBestTau_loop c thr lo hi (tau + 1)"
      using True by (subst findBestTau_loop.simps) (auto simp: below_def)
    from no 1(2,4) have "tau + 1 \<le> t" by (cases "tau = t") auto
    then show ?thesis
      unfolding r using "1.IH" True no 1(3,4) by (simp add: below_def)
  qed
qed

lemma findBestTau_crossing:
  assumes "tauMin \<le> t" "t < tauMax" "below cmndf threshold t"
  shows "below cmndf threshold (findBestTau cmndf threshold tauMin tauMax)"
  unfolding findBestTau_def using assms by (rule findBestTau_loop_crossing)

section \<open>One call of the detector\<close>

lemma detectPitch_unfold:
  "waveform \<noteq> [] \<Longrightarrow>
   detectPitch waveform sr =
     (let f = jdiv (Fin sr) (refineTau (detect_cmndf waveform sr) (detect_tau waveform sr))
      in if jlt f (Fin MIN_FREQUENCY) \<or> jlt (Fin MAX_FREQUENCY) f then None
         else Some \<lparr>frequency = f, confidence = detect_confidence waveform sr\<rparr>)"
  by (simp add: detectPitch_def detect_cmndf_def detect_tau_def detect_confidence_def
      truthy_def Let_def)

lemma detectPitch_empty: "detectPitch [] sr = None"
  by (simp add: detectPitch_def)

lemma detectPitch_confidence:
  "detectPitch waveform sr = Some d \<Longrightarrow> confidence d = detect_confidence waveform sr"
  by (cases "waveform = []")
     (auto simp: detectPitch_empty detectPitch_unfold Let_def split: if_splits)

text \<open>
  Claim C10. Whenever some value of the curve at a lag within \<open>[tauMin, tauMax)\<close> and within
  the curve lies below \<open>THRESHOLD = 0.1\<close>, the confidence computed by \<open>detectPitch\<close>, the value
  of the curve at the lag chosen by the search, is a number below 0.1; a result that is
  returned carries it.
\<close>

theorem confidence_below_threshold:
  assumes "lagMin sr \<le> t" and "t < lagMax sr"
    and "t < length (detect_cmndf waveform sr)"
    and "detect_cmndf waveform sr ! t < THRESHOLD"
  shows "(\<exists>v. detect_confidence waveform sr = Some v \<and> v < THRESHOLD)
       \<and> (\<forall>d. detectPitch waveform sr = Some d \<longrightarrow>
             (\<exists>v. confidence d = Some v \<and> v < THRESHOLD))"
proof -
  have "below (detect_cmndf waveform sr) THRESHOLD t"
    using assms(3,4) by (simp add: below_def)
  from findBestTau_crossing [OF assms(1,2) this]
  have "below (detect_cmndf waveform sr) THRESHOLD (detect_tau waveform sr)"
    by (simp add: detect_tau_def)
  then have "\<exists>v. detect_confidence waveform sr = Some v \<and> v < THRESHOLD"
    by (simp add: detect_confidence_def rd_def below_def)
  then show ?thesis
    by (auto dest: detectPitch_confidence)
qed

theorem confidence_below_threshold_witness:
  "lagMin 5000 \<le> 2 \<and> 2 < lagMax 5000
   \<and> 2 < length (detect_cmndf [1, 0, 1, 0, 1, 0, 1, 0, 1, 0, 1, 0, 1, 0, 1, 0, 1, 0, 1, 0, 1, 0] 5000)
   \<and> detect_cmndf [1, 0, 1, 0, 1, 0, 1, 0, 1, 0, 1, 0, 1, 0, 1, 0, 1, 0, 1, 0, 1, 0] 5000 ! 2
        < THRESHOLD
   \<and> (\<exists>v. detect_confidence [1, 0, 1, 0, 1, 0, 1, 0, 1, 0, 1, 0, 1, 0, 1, 0, 1, 0, 1, 0, 1, 0] 5000
             = Some v \<and> v < THRESHOLD)"
proof -
  let ?w = "[1, 0, 1, 0, 1, 0, 1, 0, 1, 0, 1, 0, 1, 0, 1, 0, 1, 0, 1, 0, 1, 0] :: real list"
  have h1: "lagMin 5000 \<le> 2" by (simp add: lagMin_def MAX_FREQUENCY_def)
  have h2: "2 < lagMax 5000" by (simp add: lagMax_def MIN_FREQUENCY_def)
  have h3: "2 < length (detect_cmndf ?w 5000)" by code_simp
  have h4: "detect_cmndf ?w 5000 ! 2 < THRESHOLD" by code_simp
  from confidence_below_threshold [OF h1 h2 h3 h4] h1 h2 h3 h4 show ?thesis by blast
qed

section \<open>Silence\<close>

lemma computeACF_silence: "computeACF (replicate n 0) tau = 0"
  by (simp add: computeACF_sum ACF_def)

lemma computeDF_silence: "computeDF (replicate n 0) tau = 0"
  by (simp add: computeDF_def computeACF_silence)

lemma cmndf_value_silence: "cmndf_value (replicate n 0) tau = 1"
  by (simp add: cmndf_value_def running_sum_def computeDF_silence)

lemma computeCMNDF_silence:
  assumes "0 < n" and "max 1 tauMin \<le> min tauMax (n - 1)"
  shows "computeCMNDF (replicate n 0) tauMin tauMax = replicate (min tauMax (n - 1) + 1) 1"
proof (rule nth_equalityI)
  from assms(1) have ne: "replicate n (0::real) \<noteq> []" by simp
  show "length (computeCMNDF (replicate n 0) tauMin tauMax) =
        length (replicate (min tauMax (n - 1) + 1) (1::real))"
    using computeCMNDF_length [OF ne] by simp
  fix i assume "i < length (computeCMNDF (replicate n 0) tauMin tauMax)"
  then have i: "i \<le> min tauMax (length (replicate n (0::real)) - 1)"
    using computeCMNDF_length [OF ne, of tauMin tauMax] by auto
  from assms(2) have v: "max 1 tauMin \<le> min tauMax (length (replicate n (0::real)) - 1)"
    by simp
  show "computeCMNDF (replicate n 0) tauMin tauMax ! i = replicate (min tauMax (n - 1) + 1) 1 ! i"
    using computeCMNDF_nth [OF ne v i] i by (simp add: cmndf_value_silence less_Suc_eq_le del: replicate_Suc)
qed

lemma computeCMNDF_no_valid_lag:
  assumes "audioSamples \<noteq> []" and "max 1 tauMin > min tauMax (length audioSamples - 1)"
  shows "computeCMNDF audioSamples tauMin tauMax =
           replicate (min tauMax (length audioSamples - 1) + 1) 0"
  unfolding computeCMNDF_def Let_def
  by (simp only: if_P [OF assms(2)] if_not_P [OF assms(1)])

lemma findBestTau_loop_no_crossing:
  "(\<forall>t. tau \<le> t \<and> t < hi \<longrightarrow> \<not> below c thr t) \<Longrightarrow>
   findBestTau_loop c thr lo hi tau = findGlobalMinIndex c lo hi"
proof (induction c thr lo hi tau rule: findBestTau_loop.induct)
  case (1 c thr lo hi tau)
  show ?case
  proof (cases "tau < hi")
    case True
    with 1(2) have nb: "\<not> below c thr tau" by simp
    then have "findBestTau_loop c thr lo hi tau = findBestTau_loop c thr lo hi (tau + 1)"
      using True by (subst findBestTau_loop.simps) (auto simp: below_def)
    also have "\<dots> = findGlobalMinIndex c lo hi"
      using "1.IH" True nb 1(2) by (simp add: below_def)
    finally show ?thesis .
  next
    case False
    then show ?thesis by (subst findBestTau_loop.simps) simp
  qed
qed

lemma findGlobalMinIndex_loop_no_smaller:
  "(\<forall>j. i \<le> j \<and> j < hi \<and> j < length c \<longrightarrow> \<not> c ! j < v) \<Longrightarrow>
   findGlobalMinIndex_loop c hi (Some v) m i = m"
proof (induction c hi "Some v" m i rule: findGlobalMinIndex_loop.induct)
  case (1 c hi m i)
  show ?case
  proof (cases "i < hi")
    case True
    with 1(3) have "\<not> (i < length c \<and> c ! i < v)" by auto
    then have "findGlobalMinIndex_loop c hi (Some v) m i =
               findGlobalMinIndex_loop c hi (Some v) m (i + 1)"
      using True by (subst findGlobalMinIndex_loop.simps) auto
    also have "\<dots> = m"
      using "1.hyps"(2) True \<open>\<not> (i < length c \<and> c ! i < v)\<close> 1(3) by auto
    finally show ?thesis .
  next
    case False
    then show ?thesis by (subst findGlobalMinIndex_loop.simps) simp
  qed
qed

lemma findBestTau_flat:
  assumes "THRESHOLD \<le> v"
  shows "findBestTau (replicate m v) THRESHOLD lo hi = lo"
proof -
  have "findBestTau (replicate m v) THRESHOLD lo hi = findGlobalMinIndex (replicate m v) lo hi"
    unfolding findBestTau_def
    by (rule findBestTau_loop_no_crossing) (use assms in \<open>auto simp: below_def\<close>)
  also have "\<dots> = lo"
  proof (cases "lo < m")
    case True
    then show ?thesis
      by (simp add: findGlobalMinIndex_def rd_def findGlobalMinIndex_loop_no_smaller)
  next
    case False
    then show ?thesis
      by (simp add: findGlobalMinIndex_def rd_def findGlobalMinIndex_loop_undefined)
  qed
  finally show ?thesis .
qed

lemma findBestTau_outside_curve:
  assumes "length c \<le> lo"
  shows "findBestTau c thr lo hi = lo"
proof -
  have "findBestTau c thr lo hi = findGlobalMinIndex c lo hi"
    unfolding findBestTau_def
    by (rule findBestTau_loop_no_crossing) (use assms in \<open>auto simp: below_def\<close>)
  also have "\<dots> = lo"
    using assms by (simp add: findGlobalMinIndex_def rd_def findGlobalMinIndex_loop_undefined)
  finally show ?thesis .
qed

lemma refineTau_flat:
  assumes "1 \<le> tau" and "tau + 1 < m"
  shows "refineTau (replicate m v) tau = NaN"
  using assms by (simp add: refineTau_def rd_def jsub_def Let_def)

lemma lagMin_less_lagMax:
  assumes "1 \<le> lagMin sr"
  shows "lagMin sr < lagMax sr"
proof -
  from assms have "1 \<le> nat \<lfloor>sr / 5000\<rfloor>"
    by (simp add: lagMin_def MAX_FREQUENCY_def)
  then have "1 \<le> \<lfloor>sr / 5000\<rfloor>" by linarith
  then have "1 \<le> sr / 5000" by (simp add: le_floor_iff)
  then have sr: "5000 \<le> sr" by simp
  then have "sr / 5000 + 1 \<le> sr / 27" by simp
  then have "\<lfloor>sr / 5000 + 1\<rfloor> \<le> \<lfloor>sr / 27\<rfloor>" by (rule floor_mono)
  then have "\<lfloor>sr / 5000\<rfloor> + 1 \<le> \<lfloor>sr / 27\<rfloor>" by simp
  with \<open>1 \<le> \<lfloor>sr / 5000\<rfloor>\<close> show ?thesis
    by (simp add: lagMin_def lagMax_def MAX_FREQUENCY_def MIN_FREQUENCY_def)
qed

text \<open>
  Claim C1 says that a silent frame gives \<open>null\<close> and never a result with a \<open>NaN\<close> frequency.
  The code does the opposite on every silent frame that is at least two samples longer than
  the smallest lag, at any sample rate of 5000 or more: the curve is flat (all ones, by the
  guard of the normalization), the search falls back to \<open>tauMin\<close>, the parabola through three
  equal values divides zero by zero, and \<open>NaN\<close> passes both range tests. The result is a
  detection whose frequency is \<open>NaN\<close> and whose confidence is 1.
\<close>

theorem detectPitch_silence_NaN:
  assumes "1 \<le> lagMin sr" and "lagMin sr + 2 \<le> n"
  shows "detectPitch (replicate n 0) sr = Some \<lparr>frequency = NaN, confidence = Some 1\<rparr>"
proof -
  let ?w = "replicate n (0::real)"
  let ?m = "min (lagMax sr) (n - 1)"
  from assms have n: "0 < n" and ne: "?w \<noteq> []" by auto
  from lagMin_less_lagMax [OF assms(1)] assms have m: "lagMin sr + 1 \<le> ?m" by simp
  with assms(1) have "max 1 (lagMin sr) \<le> ?m" by simp
  then have c: "detect_cmndf ?w sr = replicate (?m + 1) 1"
    unfolding detect_cmndf_def by (rule computeCMNDF_silence [OF n])
  have t: "detect_tau ?w sr = lagMin sr"
    unfolding detect_tau_def c by (rule findBestTau_flat) (simp add: THRESHOLD_def)
  have conf: "detect_confidence ?w sr = Some 1"
    unfolding detect_confidence_def c t using m by (simp add: rd_def less_Suc_eq_le del: replicate_Suc)
  have r: "refineTau (detect_cmndf ?w sr) (detect_tau ?w sr) = NaN"
    unfolding c t by (rule refineTau_flat) (use assms(1) m in auto)
  show ?thesis
    unfolding detectPitch_unfold [OF ne] r conf by simp
qed

theorem detectPitch_silence_NaN_witness:
  "1 \<le> lagMin 44100 \<and> lagMin 44100 + 2 \<le> 4096
   \<and> detectPitch (replicate 4096 0) 44100 = Some \<lparr>frequency = NaN, confidence = Some 1\<rparr>"
proof -
  have h1: "1 \<le> lagMin 44100" by (simp add: lagMin_def MAX_FREQUENCY_def)
  have h2: "lagMin 44100 + 2 \<le> 4096" by (simp add: lagMin_def MAX_FREQUENCY_def)
  from detectPitch_silence_NaN [OF h1 h2] h1 h2 show ?thesis by blast
qed

section \<open>Frames too short for the frequency floor\<close>

lemma lagMin_multiple: "0 < k \<Longrightarrow> lagMin (5000 * real k) = k"
  by (simp add: lagMin_def MAX_FREQUENCY_def)

lemma detectPitch_no_valid_lag:
  assumes "waveform \<noteq> []" and "1 \<le> lagMin sr" and "length waveform \<le> lagMin sr"
  shows "detectPitch waveform sr =
     (if 5000 * real (lagMin sr) < sr then None
      else Some \<lparr>frequency = Fin (sr / real (lagMin sr)), confidence = None\<rparr>)"
proof -
  let ?k = "lagMin sr"
  let ?m = "min (lagMax sr) (length waveform - 1)"
  from assms have small: "?m < ?k" by (cases waveform) auto
  then have "max 1 ?k > ?m" by simp
  then have c: "detect_cmndf waveform sr = replicate (?m + 1) 0"
    unfolding detect_cmndf_def by (rule computeCMNDF_no_valid_lag [OF assms(1)])
  have len: "length (detect_cmndf waveform sr) \<le> ?k"
    unfolding c using small by simp
  have t: "detect_tau waveform sr = ?k"
    unfolding detect_tau_def using len by (rule findBestTau_outside_curve)
  have conf: "detect_confidence waveform sr = None"
    unfolding detect_confidence_def t using len by (simp add: rd_def)
  have r: "refineTau (detect_cmndf waveform sr) (detect_tau waveform sr) = Fin (real ?k)"
    unfolding t using len by (simp add: refineTau_def)
  from assms(2) have "1 \<le> \<lfloor>sr / 5000\<rfloor>"
    unfolding lagMin_def MAX_FREQUENCY_def by linarith
  then have k: "real ?k = of_int \<lfloor>sr / 5000\<rfloor>" "0 < real ?k"
    unfolding lagMin_def MAX_FREQUENCY_def by simp_all
  have "real ?k \<le> sr / 5000"
    unfolding k(1) by (rule of_int_floor_le)
  then have ge: "5000 * real ?k \<le> sr" by simp
  with k(2) have "5000 \<le> sr / real ?k" "27 \<le> sr / real ?k"
    by (simp_all add: pos_le_divide_eq)
  moreover have "5000 < sr / real ?k \<longleftrightarrow> 5000 * real ?k < sr"
    using k(2) by (simp add: pos_less_divide_eq)
  ultimately show ?thesis
    unfolding detectPitch_unfold [OF assms(1)] r conf using k(2)
    by (simp add: MIN_FREQUENCY_def MAX_FREQUENCY_def)
qed

text \<open>
  Claim C6 says that a frame with \<open>tauMin > tauMax\<close> after clamping gives \<open>null\<close>. The early
  return of \<open>computeCMNDF\<close> hands back the zeroed curve, which is an object and passes the
  test \<open>!cmndf\<close>; the search then reads only outside the curve and returns \<open>tauMin\<close>, the
  confidence is \<open>undefined\<close>, and the frequency is \<open>sampleRate / tauMin\<close>. At a sample rate
  that is a multiple of 5000 this is exactly 5000, which is inside the accepted range: a
  detection is returned.
\<close>

theorem detectPitch_short_frame:
  assumes "waveform \<noteq> []" and "0 < k" and "length waveform \<le> k"
  shows "lagMin (5000 * real k) > min (lagMax (5000 * real k)) (length waveform - 1)
       \<and> detectPitch waveform (5000 * real k) = Some \<lparr>frequency = Fin 5000, confidence = None\<rparr>"
proof -
  let ?sr = "5000 * real k"
  let ?m = "min (lagMax ?sr) (length waveform - 1)"
  have lm: "lagMin ?sr = k" using assms(2) by (rule lagMin_multiple)
  from assms have small: "?m < k" by (cases waveform) auto
  then have "max 1 (lagMin ?sr) > ?m" by (simp add: lm)
  then have c: "detect_cmndf waveform ?sr = replicate (?m + 1) 0"
    unfolding detect_cmndf_def by (rule computeCMNDF_no_valid_lag [OF assms(1)])
  have len: "length (detect_cmndf waveform ?sr) \<le> k"
    unfolding c using small by simp
  have t: "detect_tau waveform ?sr = k"
    unfolding detect_tau_def lm using len by (rule findBestTau_outside_curve)
  have conf: "detect_confidence waveform ?sr = None"
    unfolding detect_confidence_def t using len by (simp add: rd_def)
  have r: "refineTau (detect_cmndf waveform ?sr) (detect_tau waveform ?sr) = Fin (real k)"
    unfolding t using len by (simp add: refineTau_def)
  have "detectPitch waveform ?sr = Some \<lparr>frequency = Fin 5000, confidence = None\<rparr>"
    unfolding detectPitch_unfold [OF assms(1)] r conf using assms(2)
    by (simp add: MIN_FREQUENCY_def MAX_FREQUENCY_def)
  with small lm show ?thesis by simp
qed

theorem detectPitch_short_frame_witness:
  "[1 / 2, - 1 / 2] \<noteq> ([] :: real list) \<and> (0::nat) < 2 \<and> length [1 / 2, - 1 / 2 :: real] \<le> 2
   \<and> lagMin (5000 * real 2) > min (lagMax (5000 * real 2)) (length [1 / 2, - 1 / 2 :: real] - 1)
   \<and> detectPitch [1 / 2, - 1 / 2] (5000 * real 2)
        = Some \<lparr>frequency = Fin 5000, confidence = None\<rparr>"
proof -
  have h1: "[1 / 2, - 1 / 2] \<noteq> ([] :: real list)" by simp
  have h2: "(0::nat) < 2" by simp
  have h3: "length [1 / 2, - 1 / 2 :: real] \<le> 2" by simp
  from detectPitch_short_frame [OF h1 h2 h3] h1 h2 h3 show ?thesis by blast
qed

section \<open>Reads of the search\<close>

lemma valley_descent_tr_fst:
  "fst (valley_descent_tr c hi b) = valley_descent c hi b"
proof (induction c hi b rule: valley_descent.induct)
  case (1 c hi b)
  show ?case
    by (subst valley_descent_tr.simps, subst valley_descent.simps) (use 1 in auto)
qed

lemma findGlobalMinIndex_loop_tr_fst:
  "fst (findGlobalMinIndex_loop_tr c hi mv m i) = findGlobalMinIndex_loop c hi mv m i"
proof (induction c hi mv m i rule: findGlobalMinIndex_loop.induct)
  case (1 c hi mv m i)
  show ?case
    by (subst findGlobalMinIndex_loop_tr.simps, subst findGlobalMinIndex_loop.simps)
       (use 1 in auto)
qed

lemma findBestTau_loop_tr_fst:
  "fst (findBestTau_loop_tr c thr lo hi tau) = findBestTau_loop c thr lo hi tau"
proof (induction c thr lo hi tau rule: findBestTau_loop.induct)
  case (1 c thr lo hi tau)
  show ?case
    by (subst findBestTau_loop_tr.simps, subst findBestTau_loop.simps)
       (use 1 in \<open>auto simp: valley_descent_tr_fst findGlobalMinIndex_tr_def
          findGlobalMinIndex_def findGlobalMinIndex_loop_tr_fst\<close>)
qed

lemma findBestTau_tr_fst:
  "fst (findBestTau_tr c thr lo hi) = findBestTau c thr lo hi"
  by (simp add: findBestTau_tr_def findBestTau_def findBestTau_loop_tr_fst)

lemma findBestTau_loop_tr_reads_past_end:
  assumes "tau \<le> length c" and "length c < hi"
    and "\<forall>t. tau \<le> t \<and> t < length c \<longrightarrow> \<not> c ! t < thr"
  shows "length c \<in> set (snd (findBestTau_loop_tr c thr lo hi tau))"
  using assms
proof (induction c thr lo hi tau rule: findBestTau_loop_tr.induct)
  case (1 c thr lo hi tau)
  from 1(2,3) have lt: "tau < hi" by simp
  have nc: "\<not> (tau < length c \<and> c ! tau < thr)" using 1(4) by auto
  then have r: "findBestTau_loop_tr c thr lo hi tau =
      apsnd ((@) [tau]) (findBestTau_loop_tr c thr lo hi (tau + 1))"
    using lt by (subst findBestTau_loop_tr.simps) auto
  show ?case
  proof (cases "tau = length c")
    case True
    then show ?thesis unfolding r by simp
  next
    case False
    with 1(2) have "tau + 1 \<le> length c" by simp
    moreover have "\<forall>t. tau + 1 \<le> t \<and> t < length c \<longrightarrow> \<not> c ! t < thr"
      using 1(4) by auto
    ultimately have "length c \<in> set (snd (findBestTau_loop_tr c thr lo hi (tau + 1)))"
      using "1.IH" lt nc 1(3) by simp
    then show ?thesis unfolding r by simp
  qed
qed

lemma valley_descent_tr_reads:
  "i \<in> set (snd (valley_descent_tr c hi b)) \<Longrightarrow> i < hi"
proof (induction c hi b rule: valley_descent_tr.induct)
  case (1 c hi b)
  from 1(2) show ?case
    by (subst (asm) valley_descent_tr.simps) (use "1.IH" in \<open>auto split: if_splits\<close>)
qed

lemma findGlobalMinIndex_loop_tr_reads:
  "j \<in> set (snd (findGlobalMinIndex_loop_tr c hi mv m i)) \<Longrightarrow> j < hi"
proof (induction c hi mv m i rule: findGlobalMinIndex_loop_tr.induct)
  case (1 c hi mv m i)
  from 1(3) show ?case
    by (subst (asm) findGlobalMinIndex_loop_tr.simps) (use "1.IH" in \<open>auto split: if_splits\<close>)
qed

lemma findBestTau_loop_tr_reads:
  "i \<in> set (snd (findBestTau_loop_tr c thr lo hi tau)) \<Longrightarrow> i < hi \<or> i = lo"
proof (induction c thr lo hi tau rule: findBestTau_loop_tr.induct)
  case (1 c thr lo hi tau)
  from 1(2) show ?case
    by (subst (asm) findBestTau_loop_tr.simps)
       (use "1.IH" in \<open>auto split: if_splits simp: findGlobalMinIndex_tr_def
          dest: valley_descent_tr_reads findGlobalMinIndex_loop_tr_reads\<close>)
qed

lemma search_reads_in_bounds:
  assumes "tauMax \<le> length cmndf" and "tauMin < length cmndf"
    and "i \<in> set (snd (findBestTau_tr cmndf threshold tauMin tauMax))"
  shows "i < length cmndf"
  using findBestTau_loop_tr_reads [of i cmndf threshold tauMin tauMax tauMin] assms
  by (auto simp: findBestTau_tr_def)

text \<open>
  Claim C7 says that the search works on the clamped range and reads the curve only at
  indices \<open>0..min(tauMax, length - 1)\<close>. \<open>computeCMNDF\<close> clamps \<open>tauMax\<close> to the frame, but
  \<open>detectPitch\<close> hands the unclamped \<open>tauMax\<close> to \<open>findBestTau\<close>. When the frame is shorter
  than \<open>floor(sampleRate / 27)\<close> and no value crosses the threshold before the end of the
  curve, the loop runs past the end: on a silent frame of \<open>n\<close> samples the curve has the \<open>n\<close>
  entries \<open>0..n-1\<close>, and the search reads index \<open>n\<close>. (When the frame has at least
  \<open>floor(sampleRate / 27)\<close> samples every read is inside the curve: \<open>search_reads_in_bounds\<close>.)
\<close>

theorem search_reads_past_curve:
  assumes "1 \<le> lagMin sr" and "lagMin sr < n" and "n < lagMax sr"
  shows "length (detect_cmndf (replicate n 0) sr) = n
       \<and> min (lagMax sr) (length (replicate n (0::real)) - 1) < n
       \<and> n \<in> set (detect_search_reads (replicate n 0) sr)"
proof -
  let ?w = "replicate n (0::real)"
  from assms have n: "0 < n" by simp
  from assms have m: "min (lagMax sr) (n - 1) + 1 = n" by simp
  from assms have "max 1 (lagMin sr) \<le> min (lagMax sr) (n - 1)" by simp
  then have "detect_cmndf ?w sr = replicate (min (lagMax sr) (n - 1) + 1) 1"
    unfolding detect_cmndf_def by (rule computeCMNDF_silence [OF n])
  then have c: "detect_cmndf ?w sr = replicate n 1" by (simp only: m)
  have "length (replicate n (1::real)) \<in>
        set (snd (findBestTau_loop_tr (replicate n 1) THRESHOLD (lagMin sr) (lagMax sr) (lagMin sr)))"
    by (rule findBestTau_loop_tr_reads_past_end) (use assms in \<open>auto simp: THRESHOLD_def\<close>)
  then have "n \<in> set (detect_search_reads ?w sr)"
    by (simp add: detect_search_reads_def c findBestTau_tr_def)
  with m show ?thesis by (simp add: c)
qed

theorem search_reads_past_curve_witness:
  "1 \<le> lagMin 192000 \<and> lagMin 192000 < 4096 \<and> 4096 < lagMax 192000
   \<and> length (detect_cmndf (replicate 4096 0) 192000) = 4096
   \<and> min (lagMax 192000) (length (replicate 4096 (0::real)) - 1) < 4096
   \<and> 4096 \<in> set (detect_search_reads (replicate 4096 0) 192000)"
proof -
  have h1: "1 \<le> lagMin 192000" by (simp add: lagMin_def MAX_FREQUENCY_def)
  have h2: "lagMin 192000 < 4096" by (simp add: lagMin_def MAX_FREQUENCY_def)
  have h3: "4096 < lagMax 192000" by (simp add: lagMax_def MIN_FREQUENCY_def)
  from search_reads_past_curve [OF h1 h2 h3] h1 h2 h3 show ?thesis by blast
qed

section \<open>Parabolic refinement\<close>

lemma refineTau_reads_in_bounds:
  "i \<in> set (refineTau_reads cmndf tau) \<Longrightarrow> i < length cmndf"
  by (auto simp: refineTau_reads_def split: if_splits)

lemma refineTau_boundary:
  "tau < 1 \<or> length cmndf \<le> tau + 1 \<Longrightarrow> refineTau cmndf tau = Fin (real tau)"
  by (auto simp: refineTau_def)

lemma refineTau_interior:
  "1 \<le> tau \<Longrightarrow> tau + 1 < length cmndf \<Longrightarrow>
   refineTau cmndf tau =
     jadd (Fin (real tau))
       (jmul (Fin (1 / 2))
          (jdiv (Fin (cmndf ! (tau - 1) - cmndf ! (tau + 1)))
                (Fin (cmndf ! (tau - 1) - 2 * cmndf ! tau + cmndf ! (tau + 1)))))"
proof -
  assume a: "1 \<le> tau" "tau + 1 < length cmndf"
  then have "tau - 1 < length cmndf" "tau < length cmndf" by simp_all
  with a show ?thesis
    by (simp add: refineTau_def rd_def jsub_def Let_def)
qed

lemma refineTau_formula:
  assumes "1 \<le> tau" and "tau + 1 < length cmndf"
    and "cmndf ! (tau - 1) - 2 * cmndf ! tau + cmndf ! (tau + 1) \<noteq> 0"
  shows "refineTau cmndf tau =
     Fin (real tau + 1 / 2 * ((cmndf ! (tau - 1) - cmndf ! (tau + 1))
            / (cmndf ! (tau - 1) - 2 * cmndf ! tau + cmndf ! (tau + 1))))"
  using assms by (simp add: refineTau_interior)

text \<open>
  Claim C2 says that a zero denominator makes the refinement fall back to the integer lag.
  The first two parts of the claim hold (\<open>refineTau_boundary\<close>, \<open>refineTau_formula\<close>), but
  the division is not guarded: away from the array boundaries a zero denominator gives
  \<open>+Infinity\<close>, \<open>-Infinity\<close> or, on a locally flat curve, \<open>NaN\<close>, never the integer lag.
\<close>

theorem refineTau_zero_denominator:
  assumes "1 \<le> tau" and "tau + 1 < length cmndf"
    and "cmndf ! (tau - 1) - 2 * cmndf ! tau + cmndf ! (tau + 1) = 0"
  shows "refineTau cmndf tau =
     (if 0 < cmndf ! (tau - 1) - cmndf ! (tau + 1) then PInf
      else if cmndf ! (tau - 1) - cmndf ! (tau + 1) < 0 then NInf else NaN)
     \<and> refineTau cmndf tau \<noteq> Fin (real tau)"
  using assms by (simp add: refineTau_interior)

theorem refineTau_zero_denominator_witness:
  "(1::nat) \<le> 1 \<and> 1 + 1 < length [1, 1, 1 :: real]
   \<and> [1, 1, 1 :: real] ! (1 - 1) - 2 * [1, 1, 1] ! 1 + [1, 1, 1] ! (1 + 1) = 0
   \<and> refineTau [1, 1, 1] 1 = NaN \<and> refineTau [1, 1, 1] 1 \<noteq> Fin (real (1::nat))"
proof -
  have h1: "(1::nat) \<le> 1" by simp
  have h2: "1 + 1 < length [1, 1, 1 :: real]" by simp
  have h3: "[1, 1, 1 :: real] ! (1 - 1) - 2 * [1, 1, 1] ! 1 + [1, 1, 1] ! (1 + 1) = 0" by simp
  from refineTau_zero_denominator [OF h1 h2 h3] h1 h2 h3 show ?thesis by simp
qed

lemma detectPitch_frequency:
  "detectPitch waveform sr = Some d \<Longrightarrow>
   frequency d = jdiv (Fin sr) (refineTau (detect_cmndf waveform sr) (detect_tau waveform sr))"
  by (cases "waveform = []")
     (auto simp: detectPitch_empty detectPitch_unfold Let_def split: if_splits)

text \<open>
  Claim C9, as amended. Whenever the lag chosen by the search equals \<open>tauMin\<close>, the
  refinement step reads no index of the curve out of bounds. It falls back to the unrefined
  integer lag \<open>tauMin\<close>, so that the frequency of a returned result is
  \<open>sampleRate / tauMin\<close>, when \<open>tauMin < 1\<close> or \<open>tauMin + 1 \<ge>\<close> the length of the curve.
  Otherwise \<open>tauMin - 1\<close> and \<open>tauMin + 1\<close> are indices of the curve and the lag is refined
  by the parabola through the three values around \<open>tauMin\<close>.
\<close>

theorem refinement_at_tauMin:
  assumes "detect_tau waveform sr = lagMin sr"
  shows "(\<forall>i \<in> set (refineTau_reads (detect_cmndf waveform sr) (detect_tau waveform sr)).
            i < length (detect_cmndf waveform sr))
       \<and> (lagMin sr < 1 \<or> length (detect_cmndf waveform sr) \<le> lagMin sr + 1 \<longrightarrow>
            refineTau (detect_cmndf waveform sr) (detect_tau waveform sr) = Fin (real (lagMin sr))
            \<and> (\<forall>d. detectPitch waveform sr = Some d \<longrightarrow>
                  frequency d = jdiv (Fin sr) (Fin (real (lagMin sr)))))
       \<and> (1 \<le> lagMin sr \<and> lagMin sr + 1 < length (detect_cmndf waveform sr) \<longrightarrow>
            refineTau (detect_cmndf waveform sr) (detect_tau waveform sr) =
              jadd (Fin (real (lagMin sr)))
                (jmul (Fin (1 / 2))
                   (jdiv (Fin (detect_cmndf waveform sr ! (lagMin sr - 1)
                               - detect_cmndf waveform sr ! (lagMin sr + 1)))
                         (Fin (detect_cmndf waveform sr ! (lagMin sr - 1)
                               - 2 * detect_cmndf waveform sr ! lagMin sr
                               + detect_cmndf waveform sr ! (lagMin sr + 1))))))"
proof (intro conjI impI ballI allI)
  fix i assume "i \<in> set (refineTau_reads (detect_cmndf waveform sr) (detect_tau waveform sr))"
  then show "i < length (detect_cmndf waveform sr)" by (rule refineTau_reads_in_bounds)
next
  assume b: "lagMin sr < 1 \<or> length (detect_cmndf waveform sr) \<le> lagMin sr + 1"
  then show r: "refineTau (detect_cmndf waveform sr) (detect_tau waveform sr) = Fin (real (lagMin sr))"
    unfolding assms by (rule refineTau_boundary)
  fix d assume "detectPitch waveform sr = Some d"
  from detectPitch_frequency [OF this] r
  show "frequency d = jdiv (Fin sr) (Fin (real (lagMin sr)))" by simp
next
  assume "1 \<le> lagMin sr \<and> lagMin sr + 1 < length (detect_cmndf waveform sr)"
  then show "refineTau (detect_cmndf waveform sr) (detect_tau waveform sr) =
      jadd (Fin (real (lagMin sr)))
        (jmul (Fin (1 / 2))
           (jdiv (Fin (detect_cmndf waveform sr ! (lagMin sr - 1)
                       - detect_cmndf waveform sr ! (lagMin sr + 1)))
                 (Fin (detect_cmndf waveform sr ! (lagMin sr - 1)
                       - 2 * detect_cmndf waveform sr ! lagMin sr
                       + detect_cmndf waveform sr ! (lagMin sr + 1)))))"
    unfolding assms by (simp add: refineTau_interior)
qed

theorem refinement_at_tauMin_witness:
  "detect_tau [0, 0, 0] 10000 = lagMin 10000
   \<and> length (detect_cmndf [0, 0, 0] 10000) \<le> lagMin 10000 + 1
   \<and> refineTau (detect_cmndf [0, 0, 0] 10000) (detect_tau [0, 0, 0] 10000)
        = Fin (real (lagMin 10000))
   \<and> detectPitch [0, 0, 0] 10000 = Some \<lparr>frequency = Fin 5000, confidence = Some 1\<rparr>
   \<and> frequency \<lparr>frequency = Fin 5000, confidence = Some 1\<rparr>
        = jdiv (Fin 10000) (Fin (real (lagMin 10000)))
   \<and> detect_tau [1, - 2, 2, - 1, 1, 1] 10000 = lagMin 10000
   \<and> 1 \<le> lagMin 10000
   \<and> lagMin 10000 + 1 < length (detect_cmndf [1, - 2, 2, - 1, 1, 1] 10000)
   \<and> refineTau (detect_cmndf [1, - 2, 2, - 1, 1, 1] 10000)
         (detect_tau [1, - 2, 2, - 1, 1, 1] 10000) =
       jadd (Fin (real (lagMin 10000)))
         (jmul (Fin (1 / 2))
            (jdiv (Fin (detect_cmndf [1, - 2, 2, - 1, 1, 1] 10000 ! (lagMin 10000 - 1)
                        - detect_cmndf [1, - 2, 2, - 1, 1, 1] 10000 ! (lagMin 10000 + 1)))
                  (Fin (detect_cmndf [1, - 2, 2, - 1, 1, 1] 10000 ! (lagMin 10000 - 1)
                        - 2 * detect_cmndf [1, - 2, 2, - 1, 1, 1] 10000 ! lagMin 10000
                        + detect_cmndf [1, - 2, 2, - 1, 1, 1] 10000 ! (lagMin 10000 + 1)))))"
proof -
  have h: "detect_tau [0, 0, 0] 10000 = lagMin 10000" by code_simp
  have b: "length (detect_cmndf [0, 0, 0] 10000) \<le> lagMin 10000 + 1" by code_simp
  have d: "detectPitch [0, 0, 0] 10000 = Some \<lparr>frequency = Fin 5000, confidence = Some 1\<rparr>"
    by code_simp
  have h': "detect_tau [1, - 2, 2, - 1, 1, 1] 10000 = lagMin 10000" by code_simp
  have i1: "1 \<le> lagMin 10000" by (simp add: lagMin_def MAX_FREQUENCY_def)
  have i2: "lagMin 10000 + 1 < length (detect_cmndf [1, - 2, 2, - 1, 1, 1] 10000)" by code_simp
  from refinement_at_tauMin [OF h] refinement_at_tauMin [OF h'] b d h h' i1 i2
  show ?thesis by blast
qed

text \<open>
  Claim C9 as stated fails: at a sample rate of 10000 the search starts at \<open>tauMin = 2\<close>, and
  on the frame below it chooses that lag. The curve has entries at 1 and 3, so the lag is
  refined to \<open>566/269\<close> and the returned frequency is \<open>1345000/283\<close>, about 4752.7, not
  \<open>10000 / 2 = 5000\<close>.
\<close>

theorem refinement_at_tauMin_interpolates:
  "lagMin 10000 = 2 \<and> detect_tau [1, - 2, 2, - 1, 1, 1] 10000 = 2
   \<and> refineTau (detect_cmndf [1, - 2, 2, - 1, 1, 1] 10000) 2 = Fin (566 / 269)
   \<and> detectPitch [1, - 2, 2, - 1, 1, 1] 10000
       = Some \<lparr>frequency = Fin (1345000 / 283), confidence = Some (3 / 8)\<rparr>
   \<and> jdiv (Fin 10000) (Fin (real (lagMin 10000))) = Fin 5000"
  by code_simp

section \<open>The smoother\<close>

lemma jadd_zero_right [simp]: "jadd x (Fin 0) = x"
  by (cases x) simp_all

lemma jadd_zero_left [simp]: "jadd (Fin 0) x = x"
  by (cases x) simp_all

lemma jdiv_one [simp]: "jdiv x (Fin 1) = x"
  by (cases x) simp_all

lemma jadd_assoc: "jadd (jadd a b) c = jadd a (jadd b c)"
  by (cases a; cases b; cases c) simp_all

lemma fold_indices:
  "fold (\<lambda>i total. jadd total (array ! i)) [0..<length array] z =
   fold (\<lambda>x total. jadd total x) array z"
proof -
  have "fold (\<lambda>x total. jadd total x) (map ((!) array) [0..<length array]) z =
        fold (\<lambda>i total. jadd total (array ! i)) [0..<length array] z"
    by (simp add: fold_map comp_def)
  then show ?thesis by (simp add: map_nth)
qed

lemma fold_jadd_foldr:
  "fold (\<lambda>x total. jadd total x) xs z = jadd z (foldr jadd xs (Fin 0))"
  by (induction xs arbitrary: z) (simp_all add: jadd_assoc)

lemma average_mean: "array \<noteq> [] \<Longrightarrow> average array = arithmetic_mean array"
  by (simp add: average_def arithmetic_mean_def fold_indices fold_jadd_foldr Let_def)

lemma gate_passes_iff:
  "gate_passes (Some d) \<longleftrightarrow> jlt (to_num (confidence d)) (Fin CONFIDENCE_THRESHOLD)"
  by (simp add: gate_passes_def CONFIDENCE_THRESHOLD_def split: option.splits)

lemma smooth_reference: "detectionLoop_smooth h det = reference_update h det"
proof (cases det)
  case None
  then show ?thesis by (simp add: detectionLoop_smooth_def reference_update_def)
next
  case (Some d)
  define pushed where "pushed = h @ [frequency d]"
  define history where "history = (if length pushed > SMOOTHING_FRAMES then tl pushed else pushed)"
  have e: "drop 1 xs = tl xs" for xs :: "jsnum list"
    by (simp add: drop_Suc)
  have "history \<noteq> []"
    unfolding history_def pushed_def by (cases h) (auto simp: SMOOTHING_FRAMES_def)
  then have avg: "average history = arithmetic_mean history"
    by (rule average_mean)
  show ?thesis
  proof (cases "gate_passes det")
    case True
    then have "detectionLoop_smooth h det = (history, Some (average history))"
      unfolding Some gate_passes_iff
      by (simp add: detectionLoop_smooth_def Let_def history_def pushed_def)
    moreover from True have "reference_update h det = (history, Some (arithmetic_mean history))"
      unfolding Some reference_update_def Let_def e
      by (simp add: history_def pushed_def SMOOTHING_FRAMES_def)
    ultimately show ?thesis by (simp add: avg)
  next
    case False
    then show ?thesis
      unfolding Some gate_passes_iff
      by (simp add: detectionLoop_smooth_def reference_update_def gate_passes_iff)
  qed
qed

lemma smooth_bounded:
  "length h \<le> SMOOTHING_FRAMES \<Longrightarrow> length (fst (detectionLoop_smooth h det)) \<le> SMOOTHING_FRAMES"
  by (auto simp: detectionLoop_smooth_def Let_def SMOOTHING_FRAMES_def split: option.splits)

lemma smooth_accept:
  "c < 15 / 100 \<Longrightarrow>
   detectionLoop_smooth h (Some \<lparr>frequency = f, confidence = Some c\<rparr>) =
     (let pushed = h @ [f]; history = (if length pushed > 3 then tl pushed else pushed)
      in (history, Some (average history)))"
  by (simp add: detectionLoop_smooth_def CONFIDENCE_THRESHOLD_def SMOOTHING_FRAMES_def Let_def)

lemma short_list_cases:
  "length (h :: 'a list) \<le> 3 \<Longrightarrow>
   h = [] \<or> (\<exists>a. h = [a]) \<or> (\<exists>a b. h = [a, b]) \<or> (\<exists>a b c. h = [a, b, c])"
  by (cases h; cases "tl h"; cases "tl (tl h)"; cases "tl (tl (tl h))") auto

lemma average3: "average [Fin a, Fin b, Fin c] = Fin ((a + b + c) / 3)"
  by (simp add: average_def Let_def upt_rec [of 0] upt_rec [of 1] upt_rec [of 2] upt_rec [of 3])

lemma three_frames:
  assumes "length h \<le> 3" "c1 < 15 / 100" "c2 < 15 / 100" "c3 < 15 / 100"
  shows "detectionLoop_frames h
           [Some \<lparr>frequency = Fin a, confidence = Some c1\<rparr>,
            Some \<lparr>frequency = Fin b, confidence = Some c2\<rparr>,
            Some \<lparr>frequency = Fin c, confidence = Some c3\<rparr>]
         = ([Fin a, Fin b, Fin c], Some (Fin ((a + b + c) / 3)))"
  using short_list_cases [OF assms(1)] assms(2-4)
  by (auto simp: smooth_accept Let_def average3)

lemma four_frames:
  assumes "length h \<le> 3" "c1 < 15 / 100" "c2 < 15 / 100" "c3 < 15 / 100" "c4 < 15 / 100"
  shows "detectionLoop_frames h
           [Some \<lparr>frequency = Fin a, confidence = Some c1\<rparr>,
            Some \<lparr>frequency = Fin b, confidence = Some c2\<rparr>,
            Some \<lparr>frequency = Fin c, confidence = Some c3\<rparr>,
            Some \<lparr>frequency = Fin d, confidence = Some c4\<rparr>]
         = ([Fin b, Fin c, Fin d], Some (Fin ((b + c + d) / 3)))"
  using short_list_cases [OF assms(1)] assms(2-5)
  by (auto simp: smooth_accept Let_def average3)

lemma gate_restart:
  assumes "\<not> gate_passes bad" and "gate_passes (Some good)"
  shows "detectionLoop_frames h [bad, Some good] = ([frequency good], Some (frequency good))"
proof -
  from assms(1) have "detectionLoop_smooth h bad = ([], None)"
    by (cases bad) (auto simp: detectionLoop_smooth_def gate_passes_iff)
  moreover from assms(2) have "detectionLoop_smooth [] (Some good) =
      ([frequency good], Some (frequency good))"
    by (simp add: detectionLoop_smooth_def gate_passes_iff SMOOTHING_FRAMES_def average_def Let_def)
  ultimately show ?thesis by simp
qed

text \<open>
  Claim C3. The smoothing step of the loop equals the reference update: a detection with
  confidence below 0.15 is appended, the oldest entry is dropped when the queue would hold
  more than three, and the output is the arithmetic mean of the queue; \<open>null\<close> or a failed
  gate clears the queue and gives no output. A queue of at most three entries stays so.
  From any such queue, three confident detections of 100, 102 and 98 Hz give exactly 100 Hz,
  a fourth of 110 Hz gives \<open>(102 + 98 + 110) / 3\<close>, and after a frame that fails the gate the
  next confident frame gives its own frequency.
\<close>

theorem smoothing_step_reference:
  "detectionLoop_smooth h det = reference_update h det
   \<and> (length h \<le> SMOOTHING_FRAMES \<longrightarrow>
        length (fst (detectionLoop_smooth h det)) \<le> SMOOTHING_FRAMES)
   \<and> (length h \<le> 3 \<and> c1 < 15 / 100 \<and> c2 < 15 / 100 \<and> c3 < 15 / 100 \<and> c4 < 15 / 100 \<longrightarrow>
        snd (detectionLoop_frames h
               [Some \<lparr>frequency = Fin 100, confidence = Some c1\<rparr>,
                Some \<lparr>frequency = Fin 102, confidence = Some c2\<rparr>,
                Some \<lparr>frequency = Fin 98, confidence = Some c3\<rparr>]) = Some (Fin 100)
        \<and> snd (detectionLoop_frames h
               [Some \<lparr>frequency = Fin 100, confidence = Some c1\<rparr>,
                Some \<lparr>frequency = Fin 102, confidence = Some c2\<rparr>,
                Some \<lparr>frequency = Fin 98, confidence = Some c3\<rparr>,
                Some \<lparr>frequency = Fin 110, confidence = Some c4\<rparr>])
            = Some (Fin ((102 + 98 + 110) / 3)))
   \<and> (\<not> gate_passes bad \<and> gate_passes (Some good) \<longrightarrow>
        detectionLoop_frames h [bad, Some good] = ([frequency good], Some (frequency good)))"
proof (intro conjI impI)
  show "detectionLoop_smooth h det = reference_update h det" by (rule smooth_reference)
next
  assume "length h \<le> SMOOTHING_FRAMES"
  then show "length (fst (detectionLoop_smooth h det)) \<le> SMOOTHING_FRAMES"
    by (rule smooth_bounded)
next
  assume a: "length h \<le> 3 \<and> c1 < 15 / 100 \<and> c2 < 15 / 100 \<and> c3 < 15 / 100 \<and> c4 < 15 / 100"
  then show "snd (detectionLoop_frames h
               [Some \<lparr>frequency = Fin 100, confidence = Some c1\<rparr>,
                Some \<lparr>frequency = Fin 102, confidence = Some c2\<rparr>,
                Some \<lparr>frequency = Fin 98, confidence = Some c3\<rparr>]) = Some (Fin 100)"
    using three_frames [of h c1 c2 c3 100 102 98] by (simp del: detectionLoop_frames.simps)
  from a show "snd (detectionLoop_frames h
               [Some \<lparr>frequency = Fin 100, confidence = Some c1\<rparr>,
                Some \<lparr>frequency = Fin 102, confidence = Some c2\<rparr>,
                Some \<lparr>frequency = Fin 98, confidence = Some c3\<rparr>,
                Some \<lparr>frequency = Fin 110, confidence = Some c4\<rparr>])
            = Some (Fin ((102 + 98 + 110) / 3))"
    using four_frames [of h c1 c2 c3 c4 100 102 98 110] by (simp del: detectionLoop_frames.simps)
next
  assume "\<not> gate_passes bad \<and> gate_passes (Some good)"
  then show "detectionLoop_frames h [bad, Some good] = ([frequency good], Some (frequency good))"
    using gate_restart [of bad good h] by (simp del: detectionLoop_frames.simps)
qed

theorem smoothing_step_reference_witness:
  "length ([Fin 99] :: jsnum list) \<le> SMOOTHING_FRAMES
   \<and> length ([Fin 99] :: jsnum list) \<le> 3 \<and> (1 / 20 :: real) < 15 / 100
   \<and> \<not> gate_passes (Some \<lparr>frequency = Fin 7, confidence = Some (1 / 2)\<rparr>)
   \<and> gate_passes (Some \<lparr>frequency = Fin 440, confidence = Some (1 / 20)\<rparr>)
   \<and> detectionLoop_smooth [Fin 99] (Some \<lparr>frequency = Fin 101, confidence = Some (1 / 20)\<rparr>)
        = reference_update [Fin 99] (Some \<lparr>frequency = Fin 101, confidence = Some (1 / 20)\<rparr>)
   \<and> length (fst (detectionLoop_smooth [Fin 99]
               (Some \<lparr>frequency = Fin 101, confidence = Some (1 / 20)\<rparr>))) \<le> SMOOTHING_FRAMES
   \<and> snd (detectionLoop_frames [Fin 99]
               [Some \<lparr>frequency = Fin 100, confidence = Some (1 / 20)\<rparr>,
                Some \<lparr>frequency = Fin 102, confidence = Some (1 / 20)\<rparr>,
                Some \<lparr>frequency = Fin 98, confidence = Some (1 / 20)\<rparr>]) = Some (Fin 100)
   \<and> snd (detectionLoop_frames [Fin 99]
               [Some \<lparr>frequency = Fin 100, confidence = Some (1 / 20)\<rparr>,
                Some \<lparr>frequency = Fin 102, confidence = Some (1 / 20)\<rparr>,
                Some \<lparr>frequency = Fin 98, confidence = Some (1 / 20)\<rparr>,
                Some \<lparr>frequency = Fin 110, confidence = Some (1 / 20)\<rparr>])
        = Some (Fin ((102 + 98 + 110) / 3))
   \<and> detectionLoop_frames [Fin 99]
        [Some \<lparr>frequency = Fin 7, confidence = Some (1 / 2)\<rparr>,
         Some \<lparr>frequency = Fin 440, confidence = Some (1 / 20)\<rparr>]
        = ([frequency \<lparr>frequency = Fin 440, confidence = Some (1 / 20)\<rparr>],
           Some (frequency \<lparr>frequency = Fin 440, confidence = Some (1 / 20)\<rparr>))"
proof -
  have h1: "length ([Fin 99] :: jsnum list) \<le> SMOOTHING_FRAMES"
    by (simp add: SMOOTHING_FRAMES_def)
  have h2: "length ([Fin 99] :: jsnum list) \<le> 3 \<and> (1 / 20 :: real) < 15 / 100
      \<and> (1 / 20 :: real) < 15 / 100 \<and> (1 / 20 :: real) < 15 / 100 \<and> (1 / 20 :: real) < 15 / 100"
    by simp
  have h3: "\<not> gate_passes (Some \<lparr>frequency = Fin 7, confidence = Some (1 / 2)\<rparr>)
      \<and> gate_passes (Some \<lparr>frequency = Fin 440, confidence = Some (1 / 20)\<rparr>)"
    by (simp add: gate_passes_def)
  from smoothing_step_reference
         [of "[Fin 99]" "Some \<lparr>frequency = Fin 101, confidence = Some (1 / 20)\<rparr>"
             "1 / 20" "1 / 20" "1 / 20" "1 / 20"
             "Some \<lparr>frequency = Fin 7, confidence = Some (1 / 2)\<rparr>"
             "\<lparr>frequency = Fin 440, confidence = Some (1 / 20)\<rparr>"]
       h1 h2 h3
  show ?thesis by blast
qed

section \<open>The normalized curve, stores rounded\<close>

subsection \<open>Rounding\<close>

declare expo_up.simps [simp del]
declare expo_down.simps [simp del]

lemma expo_up_lower: "1 \<le> x \<Longrightarrow> 2 powi (expo_up x) \<le> x"
proof (induction x rule: expo_up.induct)
  case (1 x)
  show ?case
  proof (cases "x < 2")
    case True
    with 1(2) show ?thesis by (subst expo_up.simps) simp
  next
    case False
    then have "2 powi (expo_up (x / 2)) \<le> x / 2" using "1.IH" by simp
    moreover have "expo_up x = 1 + expo_up (x / 2)"
      using False by (subst expo_up.simps) simp
    ultimately show ?thesis by (simp add: power_int_add)
  qed
qed

lemma expo_down_lower: "0 < x \<Longrightarrow> x < 1 \<Longrightarrow> 2 powi (expo_down x) \<le> x"
proof (induction x rule: expo_down.induct)
  case (1 x)
  from 1(2,3) have step: "expo_down x = expo_down (2 * x) - 1"
    by (subst expo_down.simps) simp
  show ?case
  proof (cases "1 \<le> 2 * x")
    case True
    then have "expo_down (2 * x) = 0" by (subst expo_down.simps) simp
    with True show ?thesis unfolding step by (simp add: power_int_minus)
  next
    case False
    with 1 have "2 powi (expo_down (2 * x)) \<le> 2 * x" by simp
    then show ?thesis unfolding step by (simp add: power_int_diff)
  qed
qed

lemma expo_lower: "x \<noteq> 0 \<Longrightarrow> 2 powi (expo x) \<le> \<bar>x\<bar>"
  by (simp add: expo_def expo_up_lower expo_down_lower)

lemma expo_less: assumes "x \<noteq> 0" and "\<bar>x\<bar> < 2 powi k" shows "expo x < k"
proof (rule ccontr)
  assume "\<not> expo x < k"
  then have "(2::real) powi k \<le> 2 powi (expo x)"
    by (intro power_int_increasing) simp_all
  with expo_lower [OF assms(1)] assms(2) show False by simp
qed

lemma rne_small: assumes "\<bar>q\<bar> < 1 / 2" shows "rne q = 0"
proof (cases "0 \<le> q")
  case True
  with assms have "\<lfloor>q\<rfloor> = 0" by (simp add: floor_eq_iff)
  with assms True show ?thesis by (simp add: rne_def Let_def)
next
  case False
  with assms have f: "\<lfloor>q\<rfloor> = - 1" by (simp add: floor_eq_iff)
  with assms False show ?thesis by (simp add: rne_def Let_def)
qed

lemma round_ieee_underflow:
  assumes "\<bar>x\<bar> < 2 powi (emin - int prec)"
  shows "round_ieee prec emin emax x = Fin 0"
proof (cases "x = 0")
  case True
  then show ?thesis by (simp add: round_ieee_def)
next
  case False
  have "(2::real) powi (emin - int prec) \<le> 2 powi emin"
    by (intro power_int_increasing) simp_all
  with assms have "\<bar>x\<bar> < 2 powi emin" by simp
  from expo_less [OF False this] have e: "max emin (expo x) = emin" by simp
  define u :: real where "u = 2 powi (emin - (int prec - 1))"
  have u: "0 < u" "u = 2 * 2 powi (emin - int prec)"
    unfolding u_def by (simp_all add: power_int_diff power_int_add algebra_simps)
  then have "\<bar>x / u\<bar> < 1 / 2"
    using assms by (simp add: abs_divide field_simps)
  then have "rne (x / u) = 0" by (rule rne_small)
  moreover have "(0::real) < 2 powi (emax + 1)" by simp
  ultimately show ?thesis
    using False by (simp add: round_ieee_def Let_def e u_def [symmetric] not_le)
qed

lemma float32_underflow: "\<bar>x\<bar> < 1 / 2 ^ 150 \<Longrightarrow> float32 (Fin x) = Fin 0"
proof -
  assume "\<bar>x\<bar> < 1 / 2 ^ 150"
  then have "\<bar>x\<bar> < 2 powi (- 126 - int 24)"
    by (simp add: power_int_minus divide_simps)
  then show ?thesis by (simp add: round_ieee_underflow)
qed

lemma float32_one: "float32 (Fin 1) = Fin 1"
  by code_simp

declare float32.simps [simp del]

subsection \<open>The two loops\<close>

lemma df_fill_length_fl:
  "length (fold (\<lambda>tau df. df[tau := g tau]) [Suc 0..<n] df0) = length df0"
  by (induction n) simp_all

lemma df_fill_nth_fl:
  "i < length df0 \<Longrightarrow>
   fold (\<lambda>tau df. df[tau := g tau]) [Suc 0..<n] df0 ! i =
     (if 1 \<le> i \<and> i < n then g i else df0 ! i)"
proof (induction n)
  case 0
  then show ?case by simp
next
  case (Suc n)
  show ?case
  proof (cases "Suc 0 \<le> n")
    case True
    show ?thesis
    proof (cases "i = n")
      case True
      with Suc.prems \<open>Suc 0 \<le> n\<close> show ?thesis
        by (simp add: df_fill_length_fl)
    next
      case False
      with Suc \<open>Suc 0 \<le> n\<close> show ?thesis
        by auto
    qed
  next
    case False
    with Suc.prems show ?thesis
      by auto
  qed
qed

lemma fold_Suc_step:
  "Suc 0 \<le> n \<Longrightarrow> fold f [Suc 0..<Suc n] s = f n (fold f [Suc 0..<n] s)"
  by simp

lemma cmndf_fold_fl_fst:
  "fst (fold (cmndf_step_fl A df) [Suc 0..<n] (z, c0)) =
   fold (\<lambda>k s. fl_add A s (df ! k)) [Suc 0..<n] z"
proof (induction n)
  case 0
  then show ?case by simp
next
  case (Suc n)
  show ?case
  proof (cases "Suc 0 \<le> n")
    case True
    have "fst (cmndf_step_fl A df n st) = fl_add A (fst st) (df ! n)" for st
      by (simp add: cmndf_step_fl_def Let_def)
    with True Suc show ?thesis
      by (simp only: fold_Suc_step)
  next
    case False
    then show ?thesis by simp
  qed
qed

lemma cmndf_fold_fl_length:
  "length (snd (fold (cmndf_step_fl A df) [Suc 0..<n] (z, c0))) = length c0"
  by (induction n) (simp_all add: cmndf_step_fl_def Let_def)

lemma cmndf_fold_fl_nth:
  "i < length c0 \<Longrightarrow>
   snd (fold (cmndf_step_fl A df) [Suc 0..<n] (z, c0)) ! i =
     (if 1 \<le> i \<and> i < n
      then fl_store A
             (if fl_eq A (fold (\<lambda>k s. fl_add A s (df ! k)) [Suc 0..<Suc i] z) (fl_num A 0)
              then fl_num A 1
              else fl_div A (fl_mul A (df ! i) (fl_num A i))
                     (fold (\<lambda>k s. fl_add A s (df ! k)) [Suc 0..<Suc i] z))
      else c0 ! i)"
proof (induction n)
  case 0
  then show ?case by simp
next
  case (Suc n)
  show ?case
  proof (cases "Suc 0 \<le> n")
    case True
    define st where "st = fold (cmndf_step_fl A df) [Suc 0..<n] (z, c0)"
    have step: "fold (cmndf_step_fl A df) [Suc 0..<Suc n] (z, c0) = cmndf_step_fl A df n st"
      using True unfolding st_def by (rule fold_Suc_step)
    have cum: "fl_add A (fst st) (df ! n) = fold (\<lambda>k s. fl_add A s (df ! k)) [Suc 0..<Suc n] z"
      using True unfolding st_def cmndf_fold_fl_fst by simp
    have len: "length (snd st) = length c0"
      unfolding st_def by (rule cmndf_fold_fl_length)
    have ih: "snd st ! i =
      (if 1 \<le> i \<and> i < n
       then fl_store A
             (if fl_eq A (fold (\<lambda>k s. fl_add A s (df ! k)) [Suc 0..<Suc i] z) (fl_num A 0)
              then fl_num A 1
              else fl_div A (fl_mul A (df ! i) (fl_num A i))
                     (fold (\<lambda>k s. fl_add A s (df ! k)) [Suc 0..<Suc i] z))
       else c0 ! i)"
      unfolding st_def using Suc by simp
    show ?thesis
    proof (cases "i = n")
      case True
      have "snd (cmndf_step_fl A df n st) ! n =
        fl_store A
          (if fl_eq A (fl_add A (fst st) (df ! n)) (fl_num A 0) then fl_num A 1
           else fl_div A (fl_mul A (df ! n) (fl_num A n)) (fl_add A (fst st) (df ! n)))"
        using Suc.prems True len by (simp add: cmndf_step_fl_def Let_def)
      then show ?thesis
        unfolding step cum using True \<open>Suc 0 \<le> n\<close> by (simp del: upt_Suc)
    next
      case False
      have "snd (cmndf_step_fl A df n st) ! i = snd st ! i"
        using False by (simp add: cmndf_step_fl_def Let_def)
      then show ?thesis
        unfolding step using ih False by (auto simp del: upt_Suc)
    qed
  next
    case False
    with Suc.prems show ?thesis
      by auto
  qed
qed

lemma computeCMNDF_fl_length:
  "audioSamples \<noteq> [] \<Longrightarrow>
   length (computeCMNDF_fl A audioSamples tauMin tauMax) =
     min tauMax (length audioSamples - 1) + 1"
  by (simp add: computeCMNDF_fl_def Let_def cmndf_fold_fl_length del: upt_Suc)

lemma stored_sum_cong:
  assumes "\<And>k. 1 \<le> k \<Longrightarrow> k < n \<Longrightarrow> f k = g k"
  shows "fold (\<lambda>k s. fl_add A s (f k)) [Suc 0..<n] z = fold (\<lambda>k s. fl_add A s (g k)) [Suc 0..<n] z"
  by (rule fold_cong) (use assms in auto)

lemma computeCMNDF_fl_nth:
  assumes "audioSamples \<noteq> []"
    and "max 1 tauMin \<le> min tauMax (length audioSamples - 1)"
    and "1 \<le> tau" and "tau \<le> min tauMax (length audioSamples - 1)"
  shows "computeCMNDF_fl A audioSamples tauMin tauMax ! tau =
           fl_store A
             (if fl_eq A (running_sum_fl A audioSamples tau) (fl_num A 0) then fl_num A 1
              else fl_div A (fl_mul A (stored_d A audioSamples tau) (fl_num A tau))
                     (running_sum_fl A audioSamples tau))"
proof -
  define m where "m = min tauMax (length audioSamples - 1)"
  define df where "df = fold (\<lambda>tau df. df[tau := fl_store A (computeDF_fl A audioSamples tau)])
               [1..<m + 1] (replicate (m + 1) (fl_num A 0))"
  have df: "df ! k = stored_d A audioSamples k" if "1 \<le> k" "k \<le> m" for k
    using that unfolding df_def stored_d_def by (simp add: df_fill_nth_fl del: upt_Suc)
  have sums: "fold (\<lambda>k s. fl_add A s (df ! k)) [Suc 0..<Suc i] (fl_num A 0) =
              running_sum_fl A audioSamples i" if "i \<le> m" for i
  proof -
    have e: "[1..<i + 1] = [Suc 0..<Suc i]" by simp
    show ?thesis
      unfolding running_sum_fl_def e
      by (rule stored_sum_cong) (use that df in auto)
  qed
  have ng: "\<not> max 1 tauMin > min tauMax (length audioSamples - 1)"
    using assms(2) by linarith
  have c: "computeCMNDF_fl A audioSamples tauMin tauMax =
             snd (fold (cmndf_step_fl A df) [1..<m + 1]
                    (fl_num A 0, (replicate (m + 1) (fl_num A 0))[0 := fl_store A (fl_num A 1)]))"
    unfolding computeCMNDF_fl_def Let_def df_def m_def
    by (simp only: if_not_P [OF ng] if_not_P [OF assms(1)])
  from assms(3,4) have t: "1 \<le> tau" "tau \<le> m" "tau < Suc m" by (auto simp: m_def)
  have "computeCMNDF_fl A audioSamples tauMin tauMax ! tau =
      fl_store A
       (if fl_eq A (fold (\<lambda>k s. fl_add A s (df ! k)) [Suc 0..<Suc tau] (fl_num A 0)) (fl_num A 0)
        then fl_num A 1
        else fl_div A (fl_mul A (df ! tau) (fl_num A tau))
               (fold (\<lambda>k s. fl_add A s (df ! k)) [Suc 0..<Suc tau] (fl_num A 0)))"
    unfolding c using t by (simp add: cmndf_fold_fl_nth del: upt_Suc replicate_Suc)
  then show ?thesis
    unfolding sums [OF t(2)] df [OF t(1,2)] .
qed

lemma computeCMNDF_fl_zero:
  assumes "audioSamples \<noteq> []"
    and "max 1 tauMin \<le> min tauMax (length audioSamples - 1)"
  shows "computeCMNDF_fl A audioSamples tauMin tauMax ! 0 = fl_store A (fl_num A 1)"
proof -
  define m where "m = min tauMax (length audioSamples - 1)"
  have ng: "\<not> max 1 tauMin > min tauMax (length audioSamples - 1)"
    using assms(2) by linarith
  show ?thesis
    unfolding computeCMNDF_fl_def Let_def
    by (simp only: if_not_P [OF ng] if_not_P [OF assms(1)])
       (simp add: cmndf_fold_fl_nth del: upt_Suc replicate_Suc)
qed

text \<open>
  Claim C5, as amended. For every non-empty frame admitting at least one valid lag,
  \<open>max(1, tauMin) \<le> min(tauMax, length - 1)\<close>, and whatever the rounding of the arithmetic
  (as long as the number 1 is stored unchanged, as it is in binary32): the curve has
  \<open>min(tauMax, length - 1) + 1\<close> entries, its entry 0 is 1, and for each lag from 1 up to the
  clamped maximum, with \<open>d(k)\<close> the difference value as stored in the \<open>Float32Array\<close> \<open>df\<close>
  and the running sum \<open>d(1) + ... + d(tau)\<close> added up from 0 in the arithmetic of the machine,
  the entry is 1 when that running sum equals zero, and otherwise the value stored in the
  \<open>Float32Array\<close> \<open>cmndf\<close> for \<open>d(tau) * tau\<close> divided by the running sum.
\<close>

theorem computeCMNDF_stored_curve:
  assumes "frame \<noteq> []"
    and "max 1 tauMin \<le> min tauMax (length frame - 1)"
    and "fl_store A (fl_num A 1) = fl_num A 1"
  shows "length (computeCMNDF_fl A frame tauMin tauMax) = min tauMax (length frame - 1) + 1
       \<and> computeCMNDF_fl A frame tauMin tauMax ! 0 = fl_num A 1
       \<and> (\<forall>tau. 1 \<le> tau \<and> tau \<le> min tauMax (length frame - 1) \<longrightarrow>
            computeCMNDF_fl A frame tauMin tauMax ! tau =
              (if fl_eq A (running_sum_fl A frame tau) (fl_num A 0) then fl_num A 1
               else fl_store A
                      (fl_div A (fl_mul A (stored_d A frame tau) (fl_num A tau))
                         (running_sum_fl A frame tau))))"
  using computeCMNDF_fl_length [OF assms(1)] computeCMNDF_fl_zero [OF assms(1,2)]
    computeCMNDF_fl_nth [OF assms(1,2)] assms(3)
  by simp

theorem computeCMNDF_stored_curve_witness:
  "[Fin 1, Fin 1, Fin 1, Fin 1] \<noteq> ([] :: jsnum list)
   \<and> max 1 (1::nat) \<le> min 185 (length [Fin 1, Fin 1, Fin 1, Fin 1] - 1)
   \<and> fl_store f32_arith (fl_num f32_arith 1) = fl_num f32_arith 1
   \<and> length (computeCMNDF_fl f32_arith [Fin 1, Fin 1, Fin 1, Fin 1] 1 185)
        = min 185 (length [Fin 1, Fin 1, Fin 1, Fin 1] - 1) + 1
   \<and> computeCMNDF_fl f32_arith [Fin 1, Fin 1, Fin 1, Fin 1] 1 185 ! 0 = fl_num f32_arith 1
   \<and> computeCMNDF_fl f32_arith [Fin 1, Fin 1, Fin 1, Fin 1] 1 185 ! 2 =
        (if fl_eq f32_arith (running_sum_fl f32_arith [Fin 1, Fin 1, Fin 1, Fin 1] 2)
              (fl_num f32_arith 0)
         then fl_num f32_arith 1
         else fl_store f32_arith
                (fl_div f32_arith
                   (fl_mul f32_arith (stored_d f32_arith [Fin 1, Fin 1, Fin 1, Fin 1] 2)
                      (fl_num f32_arith 2))
                   (running_sum_fl f32_arith [Fin 1, Fin 1, Fin 1, Fin 1] 2)))"
proof -
  have h1: "[Fin 1, Fin 1, Fin 1, Fin 1] \<noteq> ([] :: jsnum list)" by simp
  have h2: "max 1 (1::nat) \<le> min 185 (length [Fin 1, Fin 1, Fin 1, Fin 1] - 1)" by simp
  have h3: "fl_store f32_arith (fl_num f32_arith 1) = fl_num f32_arith 1"
    by (simp add: f32_arith_def float32_one)
  have h4: "(1::nat) \<le> 2 \<and> 2 \<le> min 185 (length [Fin 1, Fin 1, Fin 1, Fin 1] - 1)" by simp
  from computeCMNDF_stored_curve [OF h1 h2 h3] h1 h2 h3 h4 show ?thesis by blast
qed

lemma running_sum_fl_2:
  "running_sum_fl A frame 2 =
     fl_add A (fl_add A (fl_num A 0) (stored_d A frame 1)) (stored_d A frame 2)"
  by (simp add: running_sum_fl_def numeral_2_eq_2)

text \<open>
  Claim C5 as stated, with \<open>d(tau)\<close> the computed difference value and the quotient as it
  stands, fails on the stores. On the frame \<open>[2^-80, 0, 2^-80, 0]\<close> the difference values
  at the lags 1 and 2 are \<open>3 * 2^-160\<close> and \<open>2^-160\<close>: their sum is not zero and the claimed
  entry at lag 2 is \<open>2^-160 * 2 / (4 * 2^-160) = 1/2\<close>. Both values are below half of the
  smallest binary32 number and are stored as 0, the guard fires, and the entry is 1. On the
  frame \<open>[1, 1, 1, 1]\<close> the quotient at lag 2 is \<open>4/3\<close>, and the entry is its binary32
  rounding \<open>11184811 / 8388608\<close>.
\<close>

theorem computeCMNDF_store_rounds:
  "computeDF_fl f32_arith [Fin (1 / 2 ^ 80), Fin 0, Fin (1 / 2 ^ 80), Fin 0] 1 = Fin (3 / 2 ^ 160)
   \<and> computeDF_fl f32_arith [Fin (1 / 2 ^ 80), Fin 0, Fin (1 / 2 ^ 80), Fin 0] 2 = Fin (1 / 2 ^ 160)
   \<and> jdiv (jmul (Fin (1 / 2 ^ 160)) (Fin 2)) (jadd (Fin (3 / 2 ^ 160)) (Fin (1 / 2 ^ 160))) = Fin (1 / 2)
   \<and> computeCMNDF_fl f32_arith [Fin (1 / 2 ^ 80), Fin 0, Fin (1 / 2 ^ 80), Fin 0] 1 185 ! 2 = Fin 1
   \<and> computeCMNDF_fl f32_arith [Fin 1, Fin 1, Fin 1, Fin 1] 1 185 ! 2 = Fin (11184811 / 8388608)
   \<and> (11184811 / 8388608 :: real) \<noteq> 4 / 3"
proof -
  let ?F = "[Fin (1 / 2 ^ 80), Fin 0, Fin (1 / 2 ^ 80), Fin 0]"
  have d1: "computeDF_fl f32_arith ?F 1 = Fin (3 / 2 ^ 160)" by code_simp
  have d2: "computeDF_fl f32_arith ?F 2 = Fin (1 / 2 ^ 160)" by code_simp
  have s1: "stored_d f32_arith ?F 1 = Fin 0"
    unfolding stored_d_def d1 by (simp add: f32_arith_def float32_underflow)
  have s2: "stored_d f32_arith ?F 2 = Fin 0"
    unfolding stored_d_def d2 by (simp add: f32_arith_def float32_underflow)
  have rs: "running_sum_fl f32_arith ?F 2 = Fin 0"
    unfolding running_sum_fl_2 s1 s2 by (simp add: f32_arith_def)
  have "computeCMNDF_fl f32_arith ?F 1 185 ! 2 =
      fl_store f32_arith
        (if fl_eq f32_arith (running_sum_fl f32_arith ?F 2) (fl_num f32_arith 0)
         then fl_num f32_arith 1
         else fl_div f32_arith (fl_mul f32_arith (stored_d f32_arith ?F 2) (fl_num f32_arith 2))
                (running_sum_fl f32_arith ?F 2))"
    by (rule computeCMNDF_fl_nth) simp_all
  then have c: "computeCMNDF_fl f32_arith ?F 1 185 ! 2 = Fin 1"
    unfolding rs by (simp add: f32_arith_def float32_one)
  have q: "jdiv (jmul (Fin (1 / 2 ^ 160)) (Fin 2)) (jadd (Fin (3 / 2 ^ 160)) (Fin (1 / 2 ^ 160)))
      = Fin (1 / 2)"
    by simp
  have o: "computeCMNDF_fl f32_arith [Fin 1, Fin 1, Fin 1, Fin 1] 1 185 ! 2
      = Fin (11184811 / 8388608)"
    by code_simp
  have n: "(11184811 / 8388608 :: real) \<noteq> 4 / 3" by simp
  from d1 d2 q c o n show ?thesis by blast
qed

end
